theory Spec2Isabelle
  imports Complex_Main "HOL-Library.AList"
begin

text \<open>
  A model of the client-side core of the layout tool: the mapping from item ids to
  position records, the undo history, saving and loading, the reconciliation with the
  page, and the gesture handlers. Each function of the source is a function on the
  state of the module; the browser and the server appear as arguments (what a request
  returns, what lies under the pointer, the clock) and as a list of emitted events.
  Handlers run one at a time, as on the event loop; an \<^verbatim>\<open>await\<close> is not a point where
  another handler can run.
\<close>

section \<open>Data model (interactions/types.ts)\<close>

text \<open>
  An \<^verbatim>\<open>ItemPosition\<close> object. Every property of the TypeScript interface may be missing at
  run time (records read from \<^verbatim>\<open>/load-positions\<close> are stored after a cast), so every
  property is an option; \<open>None\<close> stands both for a missing property and for a property
  whose value is \<^verbatim>\<open>undefined\<close>: the code reads properties only through \<^verbatim>\<open>!== undefined\<close>,
  \<^verbatim>\<open>||\<close>, \<^verbatim>\<open>??\<close>, object spread and \<^verbatim>\<open>JSON.stringify\<close>, none of which tells the two apart.
  \<open>id_key\<close> is the \<^verbatim>\<open>id\<close> of \<^verbatim>\<open>SavedPositionData\<close>, \<open>top_css\<close> is \<^verbatim>\<open>top\<close>.
  Numbers: \<^verbatim>\<open>pageIndex\<close> and \<^verbatim>\<open>rotation\<close> are integers, \<^verbatim>\<open>opacity\<close> is a real number
  (exact arithmetic; NaN and the infinities are not modelled).
\<close>

record ItemPosition =
  left :: "string option"
  top_css :: "string option"
  width :: "string option"
  height :: "string option"
  pageIndex :: "int option"
  opacity :: "real option"
  scale :: "string option"
  rotation :: "int option"
  parser :: "string option"
  filepath :: "string option"
  id_key :: "string option"

text \<open>
  A property of a \<^verbatim>\<open>Partial<ItemPosition>\<close> argument: not an own property, an own property
  holding \<^verbatim>\<open>undefined\<close>, or an own property holding a value. Object spread copies the
  last two, so an explicit \<^verbatim>\<open>undefined\<close> overwrites a stored value.
\<close>

datatype 'a property = Absent | Undefined | Value 'a

record PartialItemPosition =
  p_left :: "string property"
  p_top :: "string property"
  p_width :: "string property"
  p_height :: "string property"
  p_pageIndex :: "int property"
  p_opacity :: "real property"
  p_scale :: "string property"
  p_rotation :: "int property"
  p_parser :: "string property"
  p_filepath :: "string property"

definition no_props :: PartialItemPosition where
  "no_props = \<lparr>p_left = Absent, p_top = Absent, p_width = Absent, p_height = Absent,
     p_pageIndex = Absent, p_opacity = Absent, p_scale = Absent, p_rotation = Absent,
     p_parser = Absent, p_filepath = Absent\<rparr>"

definition empty_item :: ItemPosition where
  "empty_item = \<lparr>left = None, top_css = None, width = None, height = None, pageIndex = None,
     opacity = None, scale = None, rotation = None, parser = None, filepath = None,
     id_key = None\<rparr>"

fun spread_prop :: "'a option \<Rightarrow> 'a property \<Rightarrow> 'a option" where
  "spread_prop old Absent = old"
| "spread_prop old Undefined = None"
| "spread_prop old (Value v) = Some v"

text \<open>The object literal \<^verbatim>\<open>{ ...r, ...p }\<close>.\<close>

definition spread :: "ItemPosition \<Rightarrow> PartialItemPosition \<Rightarrow> ItemPosition" where
  "spread r p = \<lparr>left = spread_prop (left r) (p_left p),
     top_css = spread_prop (top_css r) (p_top p),
     width = spread_prop (width r) (p_width p),
     height = spread_prop (height r) (p_height p),
     pageIndex = spread_prop (pageIndex r) (p_pageIndex p),
     opacity = spread_prop (opacity r) (p_opacity p),
     scale = spread_prop (scale r) (p_scale p),
     rotation = spread_prop (rotation r) (p_rotation p),
     parser = spread_prop (parser r) (p_parser p),
     filepath = spread_prop (filepath r) (p_filepath p),
     id_key = id_key r\<rparr>"

section \<open>The page (DOM) and what the program emits\<close>

text \<open>
  A page container \<^verbatim>\<open><div class="page-container" id="page-k">\<close> with the layout numbers
  the code reads from it. \<open>page_no\<close> is the \<open>k\<close> of its id: ids of page containers are
  taken to have this form and to be unique, so \<^verbatim>\<open>getElementById(`page-${k}`)\<close> is a search
  for \<open>k\<close> and \<^verbatim>\<open>parseInt(page.id.split('-')[1] || '0', 10)\<close> is \<open>page_no\<close>. Viewport
  coordinates and layout sizes are whole pixels.
\<close>

record page_container =
  page_no :: int
  rect_left :: int
  rect_top :: int
  offsetWidth :: int
  offsetHeight :: int

text \<open>
  A \<^verbatim>\<open>.draggable-item\<close> element. \<open>parentPage\<close> is the \<open>page_no\<close> of the page container that
  is its \<^verbatim>\<open>parentElement\<close>, if its parent is one. \<open>style_opacity = None\<close> is the empty
  style string; \<open>style_transform = Some (r, s)\<close> is \<^verbatim>\<open>rotate(<r>deg) scale(<s>)\<close>.
  \<open>el_offsetHeight\<close> is the layout height the browser reports.
\<close>

record element =
  el_id :: string
  parentPage :: "int option"
  style_position :: string
  style_left :: string
  style_top :: string
  style_width :: string
  style_height :: string
  style_opacity :: "real option"
  style_transform :: "(int \<times> string) option"
  el_offsetHeight :: int
  dataset_filename :: "string option"
  dataset_parser :: "string option"
  selected :: bool

text \<open>
  What the program sends out, in order: requests to the server and the console messages
  the properties below speak about (toasts and the other informational
  \<^verbatim>\<open>console.log\<close> lines are left out).
\<close>

datatype event =
    Post_save_positions "ItemPosition list"
  | Post_delete_file string
  | Log_history_updated int nat
  | Log_history_initialized
  | Warn_missing_filepath string
  | Warn_no_element string
  | Error_create_failed string
  | Warn_target_page_missing string int
  | Error_page0_missing string
  | Error_no_page_containers
  | Warn_item_without_id
  | Warn_not_enough_pages string
  | Warn_loaded_item_skipped
  | Error_loading_positions
  | Error_no_target_page

datatype error = SyntaxError | TypeError

section \<open>Module state (interactions/state.ts)\<close>

text \<open>
  Objects live in \<open>heap\<close>, a list addressed by position; a new object is appended, so
  its address is the length of the heap before. \<open>itemPositions\<close> maps ids to addresses,
  in property order (an assignment to a new key appends, to an existing key replaces in
  place: \<open>AList.update\<close>). A history snapshot is such a mapping too. \<open>pages\<close> and
  \<open>items\<close> are the page containers and the draggable items, in document order as far
  as the code asks for it.
\<close>

record state =
  heap :: "ItemPosition list"
  itemPositions :: "(string \<times> nat) list"
  positionHistory :: "(string \<times> nat) list list"
  historyIndex :: int
  dragOffsetX :: int
  dragOffsetY :: int
  draggedElement :: "string option"
  selectedElementId :: "string option"
  pages :: "page_container list"
  items :: "element list"
  trace :: "event list"

definition alloc :: "ItemPosition \<Rightarrow> state \<Rightarrow> nat \<times> state" where
  "alloc r s = (length (heap s), s\<lparr>heap := heap s @ [r]\<rparr>)"

definition emit :: "event \<Rightarrow> state \<Rightarrow> state" where
  "emit e s = s\<lparr>trace := trace s @ [e]\<rparr>"

text \<open>\<^verbatim>\<open>delete obj.opacity\<close> and \<^verbatim>\<open>delete obj.rotation\<close> on the object at an address.\<close>

definition delete_opacity :: "nat \<Rightarrow> state \<Rightarrow> state" where
  "delete_opacity a s = s\<lparr>heap := (heap s)[a := (heap s ! a)\<lparr>opacity := None\<rparr>]\<rparr>"

definition delete_rotation :: "nat \<Rightarrow> state \<Rightarrow> state" where
  "delete_rotation a s = s\<lparr>heap := (heap s)[a := (heap s ! a)\<lparr>rotation := None\<rparr>]\<rparr>"

definition delete_scale :: "nat \<Rightarrow> state \<Rightarrow> state" where
  "delete_scale a s = s\<lparr>heap := (heap s)[a := (heap s ! a)\<lparr>scale := None\<rparr>]\<rparr>"

definition set_id_key :: "nat \<Rightarrow> string \<Rightarrow> state \<Rightarrow> state" where
  "set_id_key a i s = s\<lparr>heap := (heap s)[a := (heap s ! a)\<lparr>id_key := Some i\<rparr>]\<rparr>"

definition assign_item :: "string \<Rightarrow> nat \<Rightarrow> state \<Rightarrow> state" where
  "assign_item i a s = s\<lparr>itemPositions := AList.update i a (itemPositions s)\<rparr>"

definition getItemPosition :: "string \<Rightarrow> state \<Rightarrow> ItemPosition option" where
  "getItemPosition i s = map_option (\<lambda>a. heap s ! a) (map_of (itemPositions s) i)"

text \<open>
  The block \<^verbatim>\<open>// Clean up default values\<close> of \<^verbatim>\<open>updateItemPosition\<close>, on the object at
  address \<open>a\<close> (the object \<^verbatim>\<open>itemPositions[id]\<close> refers to).
\<close>

definition clean_defaults :: "nat \<Rightarrow> state \<Rightarrow> state" where
  "clean_defaults a s =
     (let s1 = (case opacity (heap s ! a) of
                  Some v \<Rightarrow> if v \<ge> 1 then delete_opacity a s else s
                | None \<Rightarrow> s)
      in case rotation (heap s1 ! a) of
           Some v \<Rightarrow> if v = 0 then delete_rotation a s1 else s1
         | None \<Rightarrow> s1)"

definition updateItemPosition :: "string \<Rightarrow> PartialItemPosition \<Rightarrow> state \<Rightarrow> state" where
  "updateItemPosition i positionData s =
     (let (cur, s1) =
            (case map_of (itemPositions s) i of
               None \<Rightarrow>
                 (let (d, s') = alloc (empty_item\<lparr>left := Some ''0px'', top_css := Some ''0px''\<rparr>) s
                  in (d, assign_item i d s'))
             | Some a \<Rightarrow> (a, s));
          (a, s2) = alloc (spread (heap s1 ! cur) positionData) s1;
          s3 = assign_item i a s2
      in clean_defaults a s3)"

definition deleteItemPosition :: "string \<Rightarrow> state \<Rightarrow> state" where
  "deleteItemPosition i s = s\<lparr>itemPositions := AList.delete i (itemPositions s)\<rparr>"

definition clearItemPositions :: "state \<Rightarrow> state" where
  "clearItemPositions s = fold deleteItemPosition (map fst (itemPositions s)) s"

text \<open>
  \<^verbatim>\<open>getItemId\<close>: every character outside \<^verbatim>\<open>[a-zA-Z0-9. ]\<close> becomes an underscore, then an
  underscore and \<^verbatim>\<open>Date.now()\<close> follow. The clock is an argument. (Characters are bytes
  here; the file names of the properties below are ASCII.)
\<close>

definition keeps_char :: "char \<Rightarrow> bool" where
  "keeps_char c = (c \<in> set (''abcdefghijklmnopqrstuvwxyz'' @ ''ABCDEFGHIJKLMNOPQRSTUVWXYZ''
      @ ''0123456789'' @ ''. ''))"

fun nat_str :: "nat \<Rightarrow> string" where
  "nat_str n = (if n < 10 then [''0123456789'' ! n]
                else nat_str (n div 10) @ [''0123456789'' ! (n mod 10)])"

declare nat_str.simps [simp del]

text \<open>\<^verbatim>\<open>String(n)\<close> for an integer \<open>n\<close>.\<close>

definition int_str :: "int \<Rightarrow> string" where
  "int_str n = (if n < 0 then ''-'' @ nat_str (nat (- n)) else nat_str (nat n))"

definition getItemId :: "string \<Rightarrow> int \<Rightarrow> string" where
  "getItemId filename now =
     map (\<lambda>c. if keeps_char c then c else CHR ''_'') filename @ ''_'' @ int_str now"

subsection \<open>History\<close>

text \<open>
  \<^verbatim>\<open>JSON.stringify\<close> of a mapping reads the objects it refers to; the JSON text is modelled
  by its content, the list of keys with the objects' values. \<^verbatim>\<open>JSON.parse\<close> builds a new
  object for every entry. A number, a string and a missing property survive the round
  trip unchanged.
\<close>

definition JSON_stringify :: "ItemPosition list \<Rightarrow> (string \<times> nat) list \<Rightarrow> (string \<times> ItemPosition) list" where
  "JSON_stringify h m = map (\<lambda>(k, a). (k, h ! a)) m"

fun JSON_parse :: "(string \<times> ItemPosition) list \<Rightarrow> state \<Rightarrow> (string \<times> nat) list \<times> state" where
  "JSON_parse [] s = ([], s)"
| "JSON_parse ((k, v) # kvs) s =
     (let (a, s1) = alloc v s; (m, s2) = JSON_parse kvs s1 in ((k, a) # m, s2))"

text \<open>\<^verbatim>\<open>xs.slice(0, e)\<close>: a negative end counts from the end of the array.\<close>

definition slice0 :: "'a list \<Rightarrow> int \<Rightarrow> 'a list" where
  "slice0 xs e =
     (let n = int (length xs);
          e' = (if e < 0 then max (n + e) 0 else min e n)
      in take (nat e') xs)"

text \<open>\<^verbatim>\<open>xs[i]\<close>: \<^verbatim>\<open>undefined\<close> outside the array.\<close>

definition index :: "'a list \<Rightarrow> int \<Rightarrow> 'a option" where
  "index xs i = (if 0 \<le> i \<and> i < int (length xs) then Some (xs ! nat i) else None)"

definition maxHistorySize :: nat where
  "maxHistorySize = 100"

definition addStateToHistory :: "state \<Rightarrow> state" where
  "addStateToHistory s =
     (let (currentState, s1) = JSON_parse (JSON_stringify (heap s) (itemPositions s)) s;
          s2 = (if historyIndex s1 < int (length (positionHistory s1)) - 1
                then s1\<lparr>positionHistory := slice0 (positionHistory s1) (historyIndex s1 + 1)\<rparr>
                else s1);
          s3 = s2\<lparr>positionHistory := positionHistory s2 @ [currentState]\<rparr>;
          s4 = s3\<lparr>historyIndex := historyIndex s3 + 1\<rparr>;
          s5 = (if length (positionHistory s4) > maxHistorySize
                then s4\<lparr>positionHistory := tl (positionHistory s4),
                        historyIndex := historyIndex s4 - 1\<rparr>
                else s4)
      in emit (Log_history_updated (historyIndex s5) (length (positionHistory s5))) s5)"

text \<open>\<^verbatim>\<open>Object.assign(itemPositions, m)\<close>: one assignment per entry of \<open>m\<close>, in order.\<close>

definition Object_assign :: "(string \<times> nat) list \<Rightarrow> state \<Rightarrow> state" where
  "Object_assign m s = fold (\<lambda>(k, a). assign_item k a) m s"

text \<open>
  The common body of undo and redo once \<open>historyIndex\<close> has been moved: read the snapshot
  at the index, copy it, clear the live mapping and assign the copy's entries. Outside
  the array \<^verbatim>\<open>JSON.stringify(undefined)\<close> is \<^verbatim>\<open>undefined\<close> and \<^verbatim>\<open>JSON.parse\<close> of it throws.
\<close>

definition restore :: "state \<Rightarrow> (error + (string \<times> nat) list option) \<times> state" where
  "restore s =
     (case index (positionHistory s) (historyIndex s) of
        None \<Rightarrow> (Inl SyntaxError, s)
      | Some snap \<Rightarrow>
          (let (copy, s1) = JSON_parse (JSON_stringify (heap s) snap) s;
               s2 = clearItemPositions s1;
               s3 = Object_assign copy s2
           in (Inr (Some copy), s3)))"

definition undoHistory :: "state \<Rightarrow> (error + (string \<times> nat) list option) \<times> state" where
  "undoHistory s =
     (if historyIndex s > 0 then restore (s\<lparr>historyIndex := historyIndex s - 1\<rparr>)
      else (Inr None, s))"

definition redoHistory :: "state \<Rightarrow> (error + (string \<times> nat) list option) \<times> state" where
  "redoHistory s =
     (if historyIndex s < int (length (positionHistory s)) - 1
      then restore (s\<lparr>historyIndex := historyIndex s + 1\<rparr>)
      else (Inr None, s))"

definition initializeHistory :: "(string \<times> nat) list \<Rightarrow> state \<Rightarrow> state" where
  "initializeHistory initialState s =
     (let (copy, s1) = JSON_parse (JSON_stringify (heap s) initialState) s
      in emit Log_history_initialized (s1\<lparr>positionHistory := [copy], historyIndex := 0\<rparr>))"

section \<open>Saving (interactions/persistence.ts)\<close>

text \<open>
  The callback of \<^verbatim>\<open>Object.entries(itemPositions).map\<close> in \<^verbatim>\<open>savePositions\<close>: a copy
  \<^verbatim>\<open>{ ...posData }\<close> is made, the default values are deleted from the copy (opacity and
  rotation by the same two tests as in \<^verbatim>\<open>updateItemPosition\<close>, then the scale), and the id
  is written into it when \<^verbatim>\<open>filepath\<close> is falsy (missing or empty).
\<close>

definition falsy :: "string option \<Rightarrow> bool" where
  "falsy v = (case v of None \<Rightarrow> True | Some x \<Rightarrow> x = [])"

definition dataToSave :: "string \<Rightarrow> nat \<Rightarrow> state \<Rightarrow> nat \<times> state" where
  "dataToSave i posData s =
     (let (c, s1) = alloc (spread (heap s ! posData) no_props) s;
          s2 = clean_defaults c s1;
          s3 = (case scale (heap s2 ! c) of
                  Some v \<Rightarrow> if v = ''1'' then delete_scale c s2 else s2
                | None \<Rightarrow> s2);
          s4 = (if falsy (filepath (heap s3 ! c))
                then set_id_key c i (emit (Warn_missing_filepath i) s3)
                else s3)
      in (c, s4))"

fun positionsToSave :: "(string \<times> nat) list \<Rightarrow> state \<Rightarrow> nat list \<times> state" where
  "positionsToSave [] s = ([], s)"
| "positionsToSave ((i, posData) # es) s =
     (let (c, s1) = dataToSave i posData s;
          (cs, s2) = positionsToSave es s1
      in (c # cs, s2))"

text \<open>
  \<^verbatim>\<open>savePositions\<close>: the request body is serialised when \<^verbatim>\<open>fetch\<close> is called; what the
  server answers only reaches the console.
\<close>

definition savePositions :: "state \<Rightarrow> state" where
  "savePositions s =
     (let (cs, s1) = positionsToSave (itemPositions s) s
      in emit (Post_save_positions (map (\<lambda>c. heap s1 ! c) cs)) s1)"

definition updateAndSavePositions :: "state \<Rightarrow> state" where
  "updateAndSavePositions s = savePositions (addStateToHistory s)"

section \<open>Reconciling with the page (interactions/initialization.ts)\<close>

definition getElementById :: "string \<Rightarrow> state \<Rightarrow> element option" where
  "getElementById i s = find (\<lambda>e. el_id e = i) (items s)"

text \<open>\<^verbatim>\<open>document.getElementById(`page-${k}`)\<close>.\<close>

definition getPageById :: "int \<Rightarrow> state \<Rightarrow> page_container option" where
  "getPageById k s = find (\<lambda>p. page_no p = k) (pages s)"

text \<open>Writing an element's new attributes back to the page.\<close>

definition set_element :: "element \<Rightarrow> state \<Rightarrow> state" where
  "set_element e s = s\<lparr>items := map (\<lambda>x. if el_id x = el_id e then e else x) (items s)\<rparr>"

text \<open>
  \<^verbatim>\<open>page.appendChild(e)\<close>: the element leaves its place and becomes the last child of the
  page (here: the last item of the list, with the page as its parent).
\<close>

definition appendChild :: "int \<Rightarrow> element \<Rightarrow> state \<Rightarrow> state" where
  "appendChild k e s =
     s\<lparr>items := filter (\<lambda>x. el_id x \<noteq> el_id e) (items s) @ [e\<lparr>parentPage := Some k\<rparr>]\<rparr>"

definition truthy :: "string option \<Rightarrow> bool" where
  "truthy v = (\<not> falsy v)"

text \<open>\<^verbatim>\<open>path.split('/').pop()\<close>: what follows the last slash.\<close>

definition last_segment :: "string \<Rightarrow> string" where
  "last_segment path = rev (takeWhile (\<lambda>c. c \<noteq> CHR ''/'') (rev path))"

definition new_element :: "string \<Rightarrow> string \<Rightarrow> string \<Rightarrow> element" where
  "new_element i filename parserName =
     \<lparr>el_id = i, parentPage = None, style_position = [], style_left = [], style_top = [],
      style_width = [], style_height = [], style_opacity = None, style_transform = None,
      el_offsetHeight = 0, dataset_filename = Some filename, dataset_parser = Some parserName,
      selected = False\<rparr>"

text \<open>
  The styles \<^verbatim>\<open>applyPositions\<close> writes from a record. Assigning \<^verbatim>\<open>undefined\<close> to
  \<^verbatim>\<open>style.left\<close> leaves the style as it was.
\<close>

definition apply_styles :: "ItemPosition \<Rightarrow> element \<Rightarrow> element" where
  "apply_styles pos e =
     e\<lparr>style_left := (case left pos of Some l \<Rightarrow> l | None \<Rightarrow> style_left e),
       style_top := (case top_css pos of Some t \<Rightarrow> t | None \<Rightarrow> style_top e),
       style_position := ''absolute'',
       style_width := (case width pos of Some w \<Rightarrow> w | None \<Rightarrow> []),
       style_height := (case height pos of Some h \<Rightarrow> h | None \<Rightarrow> []),
       style_opacity := opacity pos,
       style_transform :=
         Some (case rotation pos of Some r \<Rightarrow> r | None \<Rightarrow> 0,
               if truthy (scale pos) then the (scale pos) else ''1'')\<rparr>"

text \<open>
  The second half of the loop body of \<^verbatim>\<open>applyPositions\<close>: choose the target page (page 0
  with a warning when \<^verbatim>\<open>page-<pageIndex>\<close> does not exist, nothing when page 0 is missing
  too), move the element there and style it.
\<close>

definition place_element :: "string \<Rightarrow> ItemPosition \<Rightarrow> element \<Rightarrow> state \<Rightarrow> state" where
  "place_element i pos e s =
     (let targetPageIndex = (case pageIndex pos of Some k \<Rightarrow> k | None \<Rightarrow> 0) in
      case getPageById targetPageIndex s of
        Some targetPage \<Rightarrow>
          (let s1 = (if parentPage e \<noteq> Some (page_no targetPage)
                     then appendChild (page_no targetPage) e s else s)
           in set_element (apply_styles pos (e\<lparr>parentPage := Some (page_no targetPage)\<rparr>)) s1)
      | None \<Rightarrow>
          (let s0 = emit (Warn_target_page_missing i targetPageIndex) s in
           case getPageById 0 s0 of
             None \<Rightarrow> emit (Error_page0_missing i) s0
           | Some targetPage \<Rightarrow>
               (let s1 = (if parentPage e \<noteq> Some (page_no targetPage)
                          then appendChild (page_no targetPage) e s0 else s0)
                in set_element (apply_styles pos (e\<lparr>parentPage := Some (page_no targetPage)\<rparr>)) s1)))"

text \<open>
  One round of the loop of \<^verbatim>\<open>applyPositions\<close>. \<open>fetch_parse parserName path\<close> says whether
  fetching the file and parsing it succeed (the parsers are outside this model).
\<close>

definition apply_one :: "(string \<Rightarrow> string \<Rightarrow> bool) \<Rightarrow> string \<Rightarrow> state \<Rightarrow> state" where
  "apply_one fetch_parse i s =
     (case getItemPosition i s of
        None \<Rightarrow> s
      | Some pos \<Rightarrow>
          (case getElementById i s of
             Some e \<Rightarrow> place_element i pos e s
           | None \<Rightarrow>
               if truthy (parser pos) \<and> truthy (filepath pos) then
                 (if fetch_parse (the (parser pos)) (the (filepath pos)) then
                    (let fname = last_segment (the (filepath pos));
                         filename = (if fname = [] then i else fname)
                     in place_element i pos (new_element i filename (the (parser pos))) s)
                  else emit (Error_create_failed i) s)
               else emit (Warn_no_element i) s))"

definition applyPositions :: "(string \<Rightarrow> string \<Rightarrow> bool) \<Rightarrow> state \<Rightarrow> state" where
  "applyPositions fetch_parse s = fold (apply_one fetch_parse) (map fst (itemPositions s)) s"

text \<open>
  \<^verbatim>\<open>String(x)\<close> for a number that is whole or a whole number and a half: layout sizes are
  whole pixels, so the default arrangement formats no other number.
\<close>

definition num_str :: "real \<Rightarrow> string" where
  "num_str x =
     (if x = of_int \<lfloor>x\<rfloor> then int_str \<lfloor>x\<rfloor>
      else (if x < 0 then ''-'' else []) @ nat_str (nat \<lfloor>\<bar>x\<bar>\<rfloor>) @ ''.5'')"

text \<open>
  \<^verbatim>\<open>document.querySelectorAll('.draggable-item')\<close>: the items page by page, then those
  outside every page container.
\<close>

definition draggable_items :: "state \<Rightarrow> element list" where
  "draggable_items s =
     concat (map (\<lambda>p. filter (\<lambda>e. parentPage e = Some (page_no p)) (items s)) (pages s))
     @ filter (\<lambda>e. parentPage e \<notin> set (map (\<lambda>p. Some (page_no p)) (pages s))) (items s)"

definition padding :: int where "padding = 20"
definition defaultItemHeight :: int where "defaultItemHeight = 100"
definition itemSpacing :: int where "itemSpacing = 15"

record cursor =
  currentTop :: int
  currentLeft :: real
  currentPageIndex :: nat

text \<open>
  The block \<^verbatim>\<open>// Check if item fits in current column/page\<close> of the callback of
  \<^verbatim>\<open>allItems.forEach\<close> in \<^verbatim>\<open>initializeDefaultPositions\<close>: where the next item goes.
  \<open>containerWidth\<close>, \<open>containerHeight\<close> and \<open>columnWidth\<close> come from the first page
  container.
\<close>

definition fit_item ::
  "int \<Rightarrow> int \<Rightarrow> real \<Rightarrow> string \<Rightarrow> int \<Rightarrow> cursor \<Rightarrow> state \<Rightarrow> cursor \<times> state" where
  "fit_item containerWidth containerHeight columnWidth elementId elementHeight c s =
     (if currentTop c + elementHeight > containerHeight - padding then
        (let c' = c\<lparr>currentLeft := currentLeft c + columnWidth + real_of_int padding,
                     currentTop := padding\<rparr> in
         if currentLeft c' + columnWidth > real_of_int (containerWidth - padding) then
           (let c'' = c'\<lparr>currentPageIndex := currentPageIndex c' + 1\<rparr> in
            if currentPageIndex c'' < length (pages s) then
              (c''\<lparr>currentLeft := real_of_int padding, currentTop := padding\<rparr>, s)
            else
              (c''\<lparr>currentLeft := real_of_int padding + columnWidth + real_of_int padding,
                   currentTop := padding,
                   currentPageIndex := length (pages s) - 1\<rparr>,
               emit (Warn_not_enough_pages elementId) s))
         else (c', s))
      else (c, s))"

text \<open>
  The callback itself. \<^verbatim>\<open>pageIndex\<close> is the position of the page in the list of page
  containers.
\<close>

definition default_item ::
  "int \<Rightarrow> int \<Rightarrow> real \<Rightarrow> element \<Rightarrow> cursor \<times> state \<Rightarrow> cursor \<times> state" where
  "default_item containerWidth containerHeight columnWidth el cs =
     (let (c, s) = cs; elementId = el_id el in
      if elementId = [] then (c, emit Warn_item_without_id s)
      else case getItemPosition elementId s of
        None \<Rightarrow>
          (let el1 = el\<lparr>style_position := ''absolute''\<rparr>;
               elementHeight = (if el_offsetHeight el1 = 0 then defaultItemHeight
                                else el_offsetHeight el1);
               (c1, s1) = fit_item containerWidth containerHeight columnWidth elementId
                            elementHeight c s;
               currentPageContainer = pages s1 ! currentPageIndex c1;
               s2 = (if parentPage el1 \<noteq> Some (page_no currentPageContainer)
                     then appendChild (page_no currentPageContainer) el1 s1 else s1);
               finalLeft = num_str (currentLeft c1) @ ''px'';
               finalTop = int_str (currentTop c1) @ ''px'';
               s3 = set_element (el1\<lparr>parentPage := Some (page_no currentPageContainer),
                                    style_left := finalLeft, style_top := finalTop\<rparr>) s2;
               s4 = updateItemPosition elementId
                      (no_props\<lparr>p_left := Value finalLeft, p_top := Value finalTop,
                                 p_pageIndex := Value (int (currentPageIndex c1))\<rparr>) s3
           in (c1\<lparr>currentTop := currentTop c1 + elementHeight + itemSpacing\<rparr>, s4))
      | Some pos \<Rightarrow>
          (let targetPageIndex = (case pageIndex pos of Some k \<Rightarrow> k | None \<Rightarrow> 0) in
           case getPageById targetPageIndex s of
             Some targetPage \<Rightarrow>
               (c, if parentPage el \<noteq> Some (page_no targetPage)
                   then appendChild (page_no targetPage) el s else s)
           | None \<Rightarrow> (c, s)))"

definition initializeDefaultPositions :: "state \<Rightarrow> state" where
  "initializeDefaultPositions s =
     (let allItems = draggable_items s; pageContainers = pages s in
      if pageContainers = [] then emit Error_no_page_containers s
      else
        (let c0 = \<lparr>currentTop = 20, currentLeft = 20, currentPageIndex = 0\<rparr>;
             containerWidth = offsetWidth (pageContainers ! 0);
             containerHeight = offsetHeight (pageContainers ! 0);
             columnWidth = (real_of_int containerWidth - 3 * real_of_int padding) / 2;
             (c, s1) = fold (default_item containerWidth containerHeight columnWidth) allItems (c0, s)
         in initializeHistory (itemPositions s1) s1))"

section \<open>Loading (interactions/persistence.ts)\<close>

text \<open>
  What \<^verbatim>\<open>fetch('/load-positions')\<close> and \<^verbatim>\<open>response.json()\<close> can give: the fetch is rejected,
  or a response arrives with a status and a body. The body does not parse, is
  \<^verbatim>\<open>null\<close> (reading \<^verbatim>\<open>.objects\<close> throws), has no truthy \<^verbatim>\<open>objects\<close>, has an \<^verbatim>\<open>objects\<close> that is
  no array (\<^verbatim>\<open>forEach\<close> is missing), or has an array of entries; an entry is \<^verbatim>\<open>null\<close> (reading
  \<^verbatim>\<open>.filepath\<close> throws) or an object.
\<close>

datatype entry = Null_entry | Entry ItemPosition

datatype json_body = Unparsable | Null_body | No_objects | Objects_not_array | Objects "entry list"

datatype response = Fetch_rejected | Response nat json_body

definition ok :: "nat \<Rightarrow> bool" where
  "ok status = (200 \<le> status \<and> status \<le> 299)"

text \<open>\<^verbatim>\<open>sanitizeFilename\<close> (utils.js) and \<^verbatim>\<open>filepath.split(/[\\/]/).pop()\<close>.\<close>

definition remove_extension :: "string \<Rightarrow> string" where
  "remove_extension f =
     (let ext = takeWhile (\<lambda>c. c \<noteq> CHR ''.'') (rev f) in
      if length ext < length f \<and> ext \<noteq> [] \<and> CHR ''/'' \<notin> set ext
      then take (length f - length ext - 1) f else f)"

definition toLowerCase :: "char \<Rightarrow> char" where
  "toLowerCase c =
     (case map_of (zip ''ABCDEFGHIJKLMNOPQRSTUVWXYZ'' ''abcdefghijklmnopqrstuvwxyz'') c of
        Some l \<Rightarrow> l | None \<Rightarrow> c)"

definition valid_char :: "char \<Rightarrow> bool" where
  "valid_char c = (c \<in> set (''abcdefghijklmnopqrstuvwxyz'' @ ''ABCDEFGHIJKLMNOPQRSTUVWXYZ''
      @ ''0123456789'' @ ''-''))"

definition sanitizeFilename :: "string \<Rightarrow> string" where
  "sanitizeFilename filename =
     map toLowerCase
       (map (\<lambda>c. if valid_char c then c else CHR ''_'')
          (map (\<lambda>c. if valid_char c then c else CHR ''_'') (remove_extension filename)))"

definition path_tail :: "string \<Rightarrow> string" where
  "path_tail path = rev (takeWhile (\<lambda>c. c \<noteq> CHR ''/'' \<and> c \<noteq> CHR 0x5C) (rev path))"

text \<open>
  The callback of \<^verbatim>\<open>loadedPositionsArray.forEach\<close>, for the entries from position \<open>n\<close> on.
  \<open>rnd n\<close> is the random suffix drawn for entry \<open>n\<close>. A thrown error ends the loop with
  the mapping as it is then.
\<close>

fun populate :: "(nat \<Rightarrow> string) \<Rightarrow> nat \<Rightarrow> entry list \<Rightarrow> state \<Rightarrow> error option \<times> state" where
  "populate rnd n [] s = (None, s)"
| "populate rnd n (Null_entry # es) s = (Some TypeError, s)"
| "populate rnd n (Entry itemData # es) s =
     (if falsy (filepath itemData) \<and> falsy (id_key itemData)
      then populate rnd (Suc n) es (emit Warn_loaded_item_skipped s)
      else
        (let itemId =
               (if truthy (id_key itemData) then the (id_key itemData)
                else (let filename = path_tail (the (filepath itemData)) in
                      if filename \<noteq> [] then sanitizeFilename filename
                      else ''unknown_'' @ rnd n));
             (a, s1) = alloc itemData s
         in populate rnd (Suc n) es (assign_item itemId a s1)))"

definition loadPositions ::
  "(nat \<Rightarrow> string) \<Rightarrow> (string \<Rightarrow> string \<Rightarrow> bool) \<Rightarrow> response \<Rightarrow> state \<Rightarrow> state" where
  "loadPositions rnd fetch_parse resp s =
     (let fallback = (\<lambda>s'. initializeDefaultPositions (emit Error_loading_positions s'));
          load = (\<lambda>loadedPositionsArray.
                    case populate rnd 0 loadedPositionsArray (clearItemPositions s) of
                      (Some err, s1) \<Rightarrow> fallback s1
                    | (None, s1) \<Rightarrow>
                        (let s2 = applyPositions fetch_parse s1
                         in initializeHistory (itemPositions s2) s2))
      in case resp of
           Fetch_rejected \<Rightarrow> fallback s
         | Response status body \<Rightarrow>
             if \<not> ok status then
               (if status = 404 then initializeDefaultPositions s else fallback s)
             else
               (case body of
                  Unparsable \<Rightarrow> fallback s
                | Null_body \<Rightarrow> fallback s
                | No_objects \<Rightarrow> load []
                | Objects_not_array \<Rightarrow> fallback (clearItemPositions s)
                | Objects es \<Rightarrow> load es))"

section \<open>Gesture handlers\<close>

text \<open>
  \<^verbatim>\<open>document.elementFromPoint\<close> is given with the event: the element under the pointer and
  its ancestors, innermost first. The loop that climbs to the nearest \<^verbatim>\<open>.page-container\<close>
  is \<open>closest_page\<close>.
\<close>

datatype dom_node = Page_container page_container | Other_element

fun closest_page :: "dom_node list \<Rightarrow> page_container option" where
  "closest_page [] = None"
| "closest_page (Page_container p # ns) = Some p"
| "closest_page (Other_element # ns) = closest_page ns"

text \<open>\<^verbatim>\<open>existing?.field\<close> passed as a property of an object literal: always an own property.\<close>

definition own :: "'a option \<Rightarrow> 'a property" where
  "own v = (case v of None \<Rightarrow> Undefined | Some x \<Rightarrow> Value x)"

text \<open>\<^verbatim>\<open>style || '0px'\<close>.\<close>

definition or_0px :: "string \<Rightarrow> string" where
  "or_0px v = (if v = [] then ''0px'' else v)"

subsection \<open>Wheel (interactions/wheelTransform.ts)\<close>

record wheel_event =
  wheel_target :: "string option"
  shiftKey :: bool
  ctrlKey :: bool
  altKey :: bool
  deltaY :: int

text \<open>
  \<^verbatim>\<open>handleWheelTransform\<close>. \<open>wheel_target\<close> is the id of the closest draggable item of the
  event target. The scale branch converts between numbers and strings with
  \<^verbatim>\<open>parseFloat\<close> and \<^verbatim>\<open>String\<close>, which are arguments here.
\<close>

definition handleWheelTransform ::
  "(string \<Rightarrow> real) \<Rightarrow> (real \<Rightarrow> string) \<Rightarrow> wheel_event \<Rightarrow> state \<Rightarrow> state" where
  "handleWheelTransform parseFloat String ev s =
     (case wheel_target ev of
        None \<Rightarrow> s
      | Some itemId \<Rightarrow>
          if itemId = [] then emit Warn_item_without_id s
          else case getElementById itemId s of
            None \<Rightarrow> s
          | Some targetItem \<Rightarrow>
              (let pageIndex = (case parentPage targetItem of Some k \<Rightarrow> k | None \<Rightarrow> 0);
                   s1 = (case getItemPosition itemId s of
                           None \<Rightarrow> updateItemPosition itemId
                                     (no_props\<lparr>p_left := Value (or_0px (style_left targetItem)),
                                                p_top := Value (or_0px (style_top targetItem)),
                                                p_pageIndex := Value pageIndex\<rparr>) s
                         | Some _ \<Rightarrow> s);
                   currentPosition = getItemPosition itemId s1;
                   stored_rotation = (case Option.bind currentPosition rotation of
                                        Some r \<Rightarrow> r | None \<Rightarrow> 0);
                   stored_scale = (if truthy (Option.bind currentPosition scale)
                                   then the (Option.bind currentPosition scale) else ''1'');
                   (needsSave, targetItem', updatedPositionData) =
                     (if shiftKey ev then
                        (let opacityStep = 0.05;
                             currentOpacity = (case style_opacity targetItem of
                                                 Some v \<Rightarrow> v | None \<Rightarrow> 1);
                             currentOpacity = currentOpacity
                                + (if deltaY ev < 0 then opacityStep else - opacityStep);
                             currentOpacity = max 0 (min 1 currentOpacity)
                         in (True,
                             targetItem\<lparr>style_opacity :=
                               (if currentOpacity < 1 then Some currentOpacity else None)\<rparr>,
                             no_props\<lparr>p_opacity :=
                               (if currentOpacity < 1 then Value currentOpacity else Undefined)\<rparr>))
                      else if ctrlKey ev then
                        (let scaleStep = 0.05;
                             currentScale = parseFloat stored_scale;
                             currentScale = currentScale
                                + (if deltaY ev < 0 then scaleStep else - scaleStep);
                             currentScale = max 0.1 currentScale;
                             newScaleStr = String currentScale
                         in (True,
                             targetItem\<lparr>style_transform := Some (stored_rotation, newScaleStr)\<rparr>,
                             no_props\<lparr>p_scale :=
                               (if newScaleStr \<noteq> ''1'' then Value newScaleStr else Undefined)\<rparr>))
                      else if altKey ev then
                        (let rotateStep = 5;
                             newRotation = stored_rotation
                                + (if deltaY ev < 0 then rotateStep else - rotateStep)
                         in (True,
                             targetItem\<lparr>style_transform := Some (newRotation, stored_scale)\<rparr>,
                             no_props\<lparr>p_rotation :=
                               (if newRotation \<noteq> 0 then Value newRotation else Undefined)\<rparr>))
                      else (False, targetItem, no_props))
               in if needsSave then
                    updateAndSavePositions
                      (updateItemPosition itemId
                         (updatedPositionData\<lparr>p_left := Value (style_left targetItem'),
                                               p_top := Value (style_top targetItem'),
                                               p_pageIndex := Value pageIndex\<rparr>)
                         (set_element targetItem' s1))
                  else s1))"

subsection \<open>Dragging, dropping and deleting items (interactions/dragDrop.ts)\<close>

record drop_event =
  clientX :: int
  clientY :: int
  under_pointer :: "dom_node list"

definition handleDrop :: "drop_event \<Rightarrow> state \<Rightarrow> state" where
  "handleDrop ev s =
     (case draggedElement s of
        None \<Rightarrow> s
      | Some itemId \<Rightarrow>
          (case getElementById itemId s of
             None \<Rightarrow> s
           | Some dragged \<Rightarrow>
               (let dropTargetContainer = closest_page (under_pointer ev);
                    originalContainer = Option.bind (parentPage dragged) (\<lambda>k. getPageById k s);
                    pageContainer = (case dropTargetContainer of
                                       Some p \<Rightarrow> Some p | None \<Rightarrow> originalContainer)
                in case pageContainer of
                     None \<Rightarrow> s
                   | Some page \<Rightarrow>
                       (let finalLeft = clientX ev - rect_left page - dragOffsetX s;
                            finalTop = clientY ev - rect_top page - dragOffsetY s;
                            s1 = (if Some (page_no page) \<noteq> parentPage dragged
                                  then appendChild (page_no page) dragged s else s);
                            finalLeftPx = int_str finalLeft @ ''px'';
                            finalTopPx = int_str finalTop @ ''px'';
                            s2 = set_element (dragged\<lparr>parentPage := Some (page_no page),
                                     style_left := finalLeftPx, style_top := finalTopPx\<rparr>) s1;
                            pageIndex = page_no page;
                            existingPosition = getItemPosition itemId s2;
                            s3 = updateItemPosition itemId
                                   (no_props\<lparr>p_left := Value finalLeftPx,
                                      p_top := Value finalTopPx,
                                      p_pageIndex := Value pageIndex,
                                      p_width := own (Option.bind existingPosition width),
                                      p_opacity := own (Option.bind existingPosition opacity),
                                      p_rotation := own (Option.bind existingPosition rotation)\<rparr>)
                                   s2
                        in updateAndSavePositions s3))))"

record key_event =
  key :: string
  confirm_answer :: bool

text \<open>
  \<^verbatim>\<open>handleKeyDown\<close>: deleting the selected item. \<open>confirm_answer\<close> is what the user
  answers to the \<^verbatim>\<open>confirm\<close> dialog.
\<close>

definition handleKeyDown :: "key_event \<Rightarrow> state \<Rightarrow> state" where
  "handleKeyDown ev s =
     (if truthy (selectedElementId s) \<and> (key ev = ''Delete'' \<or> key ev = ''Backspace'') then
        (let sel = the (selectedElementId s) in
         case getElementById sel s of
           None \<Rightarrow> s
         | Some elementToRemove \<Rightarrow>
             (let itemFilepath = Option.bind (getItemPosition sel s) filepath;
                  removeFromFileSystem = confirm_answer ev;
                  s1 = s\<lparr>items := filter (\<lambda>x. el_id x \<noteq> el_id elementToRemove) (items s)\<rparr>;
                  s2 = deleteItemPosition sel s1;
                  s3 = savePositions s2;
                  s4 = (if removeFromFileSystem \<and> truthy itemFilepath
                        then emit (Post_delete_file (the itemFilepath)) s3 else s3)
              in s4\<lparr>selectedElementId := None\<rparr>))
      else s)"

subsection \<open>Dropping a file (interactions/fileDrop.ts)\<close>

text \<open>
  What \<^verbatim>\<open>parseContent\<close> returned for the dropped file; \<^verbatim>\<open>addNewItemToPage\<close> gets \<open>None\<close>
  when fetching or parsing failed. \<open>now\<close> is \<^verbatim>\<open>Date.now()\<close>.
\<close>

record ParsedItemData =
  parsed_width :: "int option"
  parsed_height :: "int option"
  parserName :: string

definition addNewItemToPage ::
  "ParsedItemData option \<Rightarrow> int \<Rightarrow> dom_node list \<Rightarrow> string \<Rightarrow> string \<Rightarrow> int \<Rightarrow> int
     \<Rightarrow> state \<Rightarrow> state" where
  "addNewItemToPage parsed now chain filename filePath dropX dropY s =
     (case parsed of
        None \<Rightarrow> s
      | Some parsedData \<Rightarrow>
          (let newItemId = getItemId filename now;
               newItemContainer = new_element newItemId filename (parserName parsedData);
               targetPage = (case closest_page chain of
                               Some p \<Rightarrow> Some p | None \<Rightarrow> getPageById 0 s)
           in case targetPage of
                None \<Rightarrow> emit Error_no_target_page s
              | Some page \<Rightarrow>
                  (let initialLeft = dropX - rect_left page;
                       initialTop = dropY - rect_top page;
                       pageIndex = page_no page;
                       s1 = appendChild (page_no page)
                              (newItemContainer\<lparr>style_position := ''absolute'',
                                 style_left := int_str initialLeft @ ''px'',
                                 style_top := int_str initialTop @ ''px''\<rparr>) s;
                       positionData = no_props\<lparr>p_left := Value (int_str initialLeft @ ''px''),
                                        p_top := Value (int_str initialTop @ ''px''),
                                        p_pageIndex := Value pageIndex,
                                        p_parser := Value (parserName parsedData),
                                        p_filepath := Value filePath,
                                        p_opacity := Value 1,
                                        p_scale := Value ''1'',
                                        p_rotation := Value 0\<rparr>;
                       positionData =
                         (case (parsed_width parsedData, parsed_height parsedData) of
                            (Some w, Some h) \<Rightarrow>
                              positionData\<lparr>p_width := Value (int_str w @ ''px''),
                                             p_height := Value (int_str h @ ''px'')\<rparr>
                          | _ \<Rightarrow> positionData);
                       s2 = updateItemPosition newItemId positionData s1
                   in updateAndSavePositions s2)))"

subsection \<open>Undo and redo keys (interactions/undoRedo.ts)\<close>

record shortcut_event =
  with_ctrl :: bool
  pressed :: string

text \<open>
  \<^verbatim>\<open>handleUndoRedoKeys\<close>: Ctrl+Z and Ctrl+Y. After a restore the positions are applied to
  the page and saved; an error thrown by the restore leaves the handler. (The call of
  \<^verbatim>\<open>applyPositions\<close> is not awaited; here it is done before the save, which reads the
  live mapping only.)
\<close>

definition handleUndoRedoKeys ::
  "(string \<Rightarrow> string \<Rightarrow> bool) \<Rightarrow> shortcut_event \<Rightarrow> state \<Rightarrow> error option \<times> state" where
  "handleUndoRedoKeys fetch_parse ev s =
     (if with_ctrl ev \<and> pressed ev = ''z'' then
        (case undoHistory s of
           (Inl e, s') \<Rightarrow> (Some e, s')
         | (Inr None, s') \<Rightarrow> (None, s')
         | (Inr (Some restoredState), s') \<Rightarrow>
             (None, savePositions (applyPositions fetch_parse s')))
      else if with_ctrl ev \<and> pressed ev = ''y'' then
        (case redoHistory s of
           (Inl e, s') \<Rightarrow> (Some e, s')
         | (Inr None, s') \<Rightarrow> (None, s')
         | (Inr (Some restoredState), s') \<Rightarrow>
             (None, savePositions (applyPositions fetch_parse s')))
      else (None, s))"

section \<open>Properties of states\<close>

text \<open>
  The content of the live mapping and of the history, object by object: what a deep
  comparison sees.
\<close>

definition store :: "state \<Rightarrow> (string \<times> ItemPosition) list" where
  "store s = JSON_stringify (heap s) (itemPositions s)"

definition snapshots :: "state \<Rightarrow> (string \<times> ItemPosition) list list" where
  "snapshots s = map (JSON_stringify (heap s)) (positionHistory s)"

text \<open>
  A mapping is well formed in a heap when its keys are distinct and its addresses are
  allocated; a state is when the live mapping and every snapshot are.
\<close>

definition wf_map :: "ItemPosition list \<Rightarrow> (string \<times> nat) list \<Rightarrow> bool" where
  "wf_map h m = (distinct (map fst m) \<and> list_all (\<lambda>(k, a). a < length h) m)"

definition wf :: "state \<Rightarrow> bool" where
  "wf s = (wf_map (heap s) (itemPositions s) \<and> list_all (wf_map (heap s)) (positionHistory s))"

text \<open>No object of the live mapping is an object of a history snapshot.\<close>

definition unaliased :: "state \<Rightarrow> bool" where
  "unaliased s =
     list_all (\<lambda>(k, a). list_all (\<lambda>m. list_all (\<lambda>(k', a'). a' \<noteq> a) m) (positionHistory s))
       (itemPositions s)"

text \<open>The history index points into the history, which holds at most 100 snapshots.\<close>

definition history_ok :: "state \<Rightarrow> bool" where
  "history_ok s =
     (- 1 \<le> historyIndex s \<and> historyIndex s < int (length (positionHistory s))
      \<and> length (positionHistory s) \<le> maxHistorySize)"

text \<open>The state of the module when it is loaded.\<close>

definition initial_state :: "page_container list \<Rightarrow> element list \<Rightarrow> state" where
  "initial_state ps es =
     \<lparr>heap = [], itemPositions = [], positionHistory = [], historyIndex = - 1,
      dragOffsetX = 0, dragOffsetY = 0, draggedElement = None, selectedElementId = None,
      pages = ps, items = es, trace = []\<rparr>"

text \<open>
  The mapping \<^verbatim>\<open>JSON.parse\<close> builds in heap \<open>h\<close> for a text with entries \<open>kvs\<close>: the keys,
  at the next free addresses.
\<close>

definition fresh_map :: "ItemPosition list \<Rightarrow> (string \<times> ItemPosition) list \<Rightarrow> (string \<times> nat) list" where
  "fresh_map h kvs = zip (map fst kvs) [length h ..< length h + length kvs]"

text \<open>What the clean-up of \<^verbatim>\<open>updateItemPosition\<close> makes of an object's value.\<close>

definition cleanup :: "ItemPosition \<Rightarrow> ItemPosition" where
  "cleanup r =
     (let r1 = (case opacity r of Some v \<Rightarrow> if v \<ge> 1 then r\<lparr>opacity := None\<rparr> else r | None \<Rightarrow> r)
      in case rotation r1 of Some v \<Rightarrow> if v = 0 then r1\<lparr>rotation := None\<rparr> else r1 | None \<Rightarrow> r1)"

definition default_position :: ItemPosition where
  "default_position = empty_item\<lparr>left := Some ''0px'', top_css := Some ''0px''\<rparr>"

text \<open>What \<^verbatim>\<open>savePositions\<close> sends for the record of id \<open>i\<close> with value \<open>r\<close>.\<close>

definition save_form :: "string \<Rightarrow> ItemPosition \<Rightarrow> ItemPosition" where
  "save_form i r =
     (let r1 = cleanup r;
          r2 = (if scale r1 = Some ''1'' then r1\<lparr>scale := None\<rparr> else r1)
      in if falsy (filepath r2) then r2\<lparr>id_key := Some i\<rparr> else r2)"

text \<open>
  An example: one item \<open>a\<close>, a history of three snapshots with the item at 10px, 20px
  and 30px, and the index on the second snapshot, as after one undo.
\<close>

definition three_deep :: state where
  "three_deep =
     (initial_state [] [])
       \<lparr>heap := [default_position\<lparr>left := Some ''10px''\<rparr>, default_position\<lparr>left := Some ''20px''\<rparr>,
                default_position\<lparr>left := Some ''30px''\<rparr>, default_position\<lparr>left := Some ''20px''\<rparr>],
        itemPositions := [(''a'', 3)],
        positionHistory := [ [(''a'', 0)], [(''a'', 1)], [(''a'', 2)]],
        historyIndex := 1\<rparr>"

text \<open>
  An example: one item whose record holds the three default values and no file path.
\<close>

definition scaled_one :: state where
  "scaled_one =
     (initial_state [] [])
       \<lparr>heap := [default_position\<lparr>opacity := Some 1, scale := Some ''1'', rotation := Some 0\<rparr>],
        itemPositions := [(''a'', 0)]\<rparr>"

text \<open>Calling \<^verbatim>\<open>undoHistory\<close> \<open>k\<close> times in a row; a thrown error ends the run.\<close>

fun undo_times :: "nat \<Rightarrow> state \<Rightarrow> error + state" where
  "undo_times 0 s = Inr s"
| "undo_times (Suc k) s =
     (case undoHistory s of (Inl e, s') \<Rightarrow> Inl e | (Inr r, s') \<Rightarrow> undo_times k s')"

text \<open>The mutations of the live mapping that state.ts offers.\<close>

datatype mutation = Upsert string PartialItemPosition | Remove string | Clear

fun mutate :: "mutation \<Rightarrow> state \<Rightarrow> state" where
  "mutate (Upsert i p) s = updateItemPosition i p s"
| "mutate (Remove i) s = deleteItemPosition i s"
| "mutate Clear s = clearItemPositions s"

text \<open>
  A step from \<open>s\<close> to \<open>s'\<close> that only allocates objects and emits events: the mappings,
  the history and the page are the same.
\<close>

definition grows :: "state \<Rightarrow> state \<Rightarrow> bool" where
  "grows s s' =
     (itemPositions s' = itemPositions s \<and> positionHistory s' = positionHistory s
      \<and> historyIndex s' = historyIndex s \<and> pages s' = pages s \<and> items s' = items s
      \<and> selectedElementId s' = selectedElementId s \<and> draggedElement s' = draggedElement s
      \<and> (\<exists>h'. heap s' = heap s @ h') \<and> (\<exists>tr'. trace s' = trace s @ tr'))"

text \<open>An example: page 1, whose bounding box starts at (50, 20).\<close>

definition page_one :: page_container where
  "page_one = \<lparr>page_no = 1, rect_left = 50, rect_top = 20, offsetWidth = 800, offsetHeight = 1100\<rparr>"

text \<open>
  An example: the item \<open>a\<close> sits on page 0, its record is in the live mapping and in
  the one snapshot of the history, and it is selected.
\<close>

definition page_zero :: page_container where
  "page_zero = \<lparr>page_no = 0, rect_left = 0, rect_top = 0, offsetWidth = 800, offsetHeight = 1100\<rparr>"

definition item_a :: ItemPosition where
  "item_a = default_position\<lparr>parser := Some ''chord'', filepath := Some ''/user/a.txt''\<rparr>"

definition selected_item :: state where
  "selected_item =
     (initial_state [page_zero]
        [(new_element ''a'' ''a.txt'' ''chord'')\<lparr>parentPage := Some 0, selected := True\<rparr>])
       \<lparr>heap := [item_a, item_a],
        itemPositions := [(''a'', 0)],
        positionHistory := [ [(''a'', 1)]],
        historyIndex := 0,
        selectedElementId := Some ''a''\<rparr>"


text \<open>
  An example: pages 0 and 1, and an item \<open>x\<close> on page 1 whose record names page 5.
\<close>

definition far_page :: state where
  "far_page =
     (initial_state [page_zero, page_one]
        [(new_element ''x'' ''x.svg'' ''svg'')\<lparr>parentPage := Some 1\<rparr>])
       \<lparr>heap := [default_position\<lparr>pageIndex := Some 5\<rparr>],
        itemPositions := [(''x'', 0)]\<rparr>"

text \<open>
  An example: a new item \<open>a\<close> on page 0, fully opaque and without a record yet, and a
  wheel tick down over it with the opacity modifier held.
\<close>

definition element_a :: element where
  "element_a = (new_element ''a'' ''a.txt'' ''chord'')\<lparr>parentPage := Some 0\<rparr>"

definition fresh_item :: state where
  "fresh_item = initial_state [page_zero] [element_a]"

definition tick_down :: wheel_event where
  "tick_down = \<lparr>wheel_target = Some ''a'', shiftKey = True, ctrlKey = False, altKey = False,
     deltaY = 100\<rparr>"

text \<open>The opacity one wheel tick makes of the style's opacity.\<close>

definition next_opacity :: "wheel_event \<Rightarrow> real option \<Rightarrow> real" where
  "next_opacity ev style =
     max 0 (min 1 ((case style of Some v \<Rightarrow> v | None \<Rightarrow> 1)
                   + (if deltaY ev < 0 then 0.05 else - 0.05)))"

text \<open>
  Stand-ins for the examples: no file can be fetched and parsed, every random suffix is
  empty, and the two number conversions of the scale branch (which no example takes)
  are constant.
\<close>

definition no_parse :: "string \<Rightarrow> string \<Rightarrow> bool" where
  "no_parse p f = False"

definition no_suffix :: "nat \<Rightarrow> string" where
  "no_suffix n = []"

definition parse_one :: "string \<Rightarrow> real" where
  "parse_one str = 1"

definition string_one :: "real \<Rightarrow> string" where
  "string_one x = ''1''"

text \<open>
  The item of a record has an element for \<^verbatim>\<open>applyPositions\<close> to place: one is on the page,
  or the record names a parser and a file path and fetching and parsing succeed.
\<close>

definition element_available ::
  "(string \<Rightarrow> string \<Rightarrow> bool) \<Rightarrow> string \<Rightarrow> ItemPosition \<Rightarrow> state \<Rightarrow> bool" where
  "element_available fetch_parse i pos s =
     (case getElementById i s of
        Some e \<Rightarrow> True
      | None \<Rightarrow> truthy (parser pos) \<and> truthy (filepath pos)
                \<and> fetch_parse (the (parser pos)) (the (filepath pos)))"

text \<open>
  An example: pages 0 and 1, and a record for \<open>x\<close> that names page 5, a parser and a file
  path, with no element on the page yet, as after a load; every file can be fetched
  and parsed.
\<close>

definition yes_parse :: "string \<Rightarrow> string \<Rightarrow> bool" where
  "yes_parse p f = True"

definition far_page_unbuilt :: state where
  "far_page_unbuilt =
     (initial_state [page_zero, page_one] [])
       \<lparr>heap := [default_position\<lparr>pageIndex := Some 5, parser := Some ''svg'',
                                   filepath := Some ''/user/x.svg''\<rparr>],
        itemPositions := [(''x'', 0)]\<rparr>"

text \<open>
  What the user and the server can make the program do: a wheel tick, a drop of the
  dragged item, a key press on the selected item, a dropped file (with what parsing
  gave, the clock, what lies under the pointer, the file's name and path and the drop
  point), an undo or redo shortcut, and a load with the response it gets.
\<close>

datatype gesture =
    Wheel wheel_event
  | Drop drop_event
  | Key key_event
  | File_drop "ParsedItemData option" int "dom_node list" string string int int
  | Shortcut shortcut_event
  | Load response

fun perform ::
  "(nat \<Rightarrow> string) \<Rightarrow> (string \<Rightarrow> string \<Rightarrow> bool) \<Rightarrow> (string \<Rightarrow> real) \<Rightarrow> (real \<Rightarrow> string)
     \<Rightarrow> gesture \<Rightarrow> state \<Rightarrow> state" where
  "perform rnd fp pf st (Wheel ev) s = handleWheelTransform pf st ev s"
| "perform rnd fp pf st (Drop ev) s = handleDrop ev s"
| "perform rnd fp pf st (Key ev) s = handleKeyDown ev s"
| "perform rnd fp pf st (File_drop parsed now chain filename filePath x y) s =
     addNewItemToPage parsed now chain filename filePath x y s"
| "perform rnd fp pf st (Shortcut ev) s = snd (handleUndoRedoKeys fp ev s)"
| "perform rnd fp pf st (Load resp) s = loadPositions rnd fp resp s"

text \<open>
  A record's opacity is in range: missing, or at least 0 and below 1. A state's
  opacities are in range when this holds of every record of the live mapping and of
  every snapshot. A response is in range when it holds of every entry it carries.
\<close>

definition in_range :: "ItemPosition \<Rightarrow> bool" where
  "in_range r = (case opacity r of None \<Rightarrow> True | Some v \<Rightarrow> 0 \<le> v \<and> v < 1)"

definition opacities_in_range :: "state \<Rightarrow> bool" where
  "opacities_in_range s =
     (list_all (\<lambda>(i, r). in_range r) (store s)
      \<and> list_all (list_all (\<lambda>(i, r). in_range r)) (snapshots s))"

definition entry_in_range :: "entry \<Rightarrow> bool" where
  "entry_in_range e = (case e of Null_entry \<Rightarrow> True | Entry r \<Rightarrow> in_range r)"

definition gesture_in_range :: "gesture \<Rightarrow> bool" where
  "gesture_in_range g =
     (case g of
        Load (Response status (Objects es)) \<Rightarrow> list_all entry_in_range es
      | _ \<Rightarrow> True)"

text \<open>The three together: what every step keeps.\<close>

definition state_ok :: "state \<Rightarrow> bool" where
  "state_ok s = (wf s \<and> history_ok s \<and> opacities_in_range s)"

text \<open>The opacity of a partial record that a gesture passes on: no negative value.\<close>

definition opacity_ok :: "real property \<Rightarrow> bool" where
  "opacity_ok p = (case p of Value v \<Rightarrow> 0 \<le> v | _ \<Rightarrow> True)"

text \<open>An example: two wheel ticks down with the opacity modifier held.\<close>

definition two_ticks :: "gesture list" where
  "two_ticks = [Wheel tick_down, Wheel tick_down]"

text \<open>
  An example: a settings file with one entry, for \<open>x\<close>, whose opacity is 5.
\<close>

definition bright_file :: response where
  "bright_file = Response 200 (Objects [Entry (default_position\<lparr>id_key := Some ''x'', opacity := Some 5\<rparr>)])"

section \<open>Lemmas: the heap and the history\<close>

lemma JSON_parse_eq:
  "JSON_parse kvs s =
     (zip (map fst kvs) [length (heap s) ..< length (heap s) + length kvs],
      s\<lparr>heap := heap s @ map snd kvs\<rparr>)"
proof (induction kvs arbitrary: s)
  case Nil
  show ?case by simp
next
  case (Cons kv kvs)
  obtain k v where kv: "kv = (k, v)" by (cases kv)
  show ?case
    unfolding kv
    by (simp add: Cons.IH alloc_def upt_rec [of "length (heap s)"] del: upt_Suc)
qed

lemma delete_fold:
  "fold deleteItemPosition ks s =
     s\<lparr>itemPositions := filter (\<lambda>(k, _). k \<notin> set ks) (itemPositions s)\<rparr>"
proof (induction ks arbitrary: s)
  case Nil
  show ?case by simp
next
  case (Cons k ks)
  have filt: "filter (\<lambda>(k', _). k' \<notin> set ks) (AList.delete k (itemPositions s))
        = filter (\<lambda>(k', _). k' \<notin> set (k # ks)) (itemPositions s)"
    by (simp add: AList.delete_eq) (rule filter_cong, auto)
  have "fold deleteItemPosition (k # ks) s = fold deleteItemPosition ks (deleteItemPosition k s)"
    by simp
  also have "\<dots> = (deleteItemPosition k s)\<lparr>itemPositions :=
      filter (\<lambda>(k', _). k' \<notin> set ks) (itemPositions (deleteItemPosition k s))\<rparr>"
    by (rule Cons.IH)
  also have "\<dots> = s\<lparr>itemPositions := filter (\<lambda>(k', _). k' \<notin> set (k # ks)) (itemPositions s)\<rparr>"
    using filt by (simp add: deleteItemPosition_def)
  finally show ?case .
qed

lemma clearItemPositions_eq: "clearItemPositions s = s\<lparr>itemPositions := []\<rparr>"
proof -
  have "filter (\<lambda>(k, _). k \<notin> set (map fst m)) m = []" for m :: "(string \<times> nat) list"
    by (force simp: filter_empty_conv)
  then show ?thesis
    by (simp add: clearItemPositions_def delete_fold)
qed

lemma update_fresh: "k \<notin> fst ` set ps \<Longrightarrow> AList.update k a ps = ps @ [(k, a)]"
  by (induction ps) auto

lemma Object_assign_fold:
  "distinct (map fst m) \<Longrightarrow> fst ` set m \<inter> fst ` set (itemPositions s) = {} \<Longrightarrow>
   Object_assign m s = s\<lparr>itemPositions := itemPositions s @ m\<rparr>"
proof (induction m arbitrary: s)
  case Nil
  show ?case by (simp add: Object_assign_def)
next
  case (Cons ka m)
  obtain k a where ka: "ka = (k, a)" by (cases ka)
  from Cons.prems have fresh: "k \<notin> fst ` set (itemPositions s)"
    by (auto simp: ka)
  have step: "assign_item k a s = s\<lparr>itemPositions := itemPositions s @ [(k, a)]\<rparr>"
    by (simp add: assign_item_def update_fresh [OF fresh])
  have "Object_assign m (assign_item k a s)
        = (assign_item k a s)\<lparr>itemPositions := itemPositions (assign_item k a s) @ m\<rparr>"
    using Cons.prems by (intro Cons.IH) (auto simp: step ka)
  then show ?case
    by (simp add: Object_assign_def ka step)
qed

lemma stringify_append: "wf_map h m \<Longrightarrow> JSON_stringify (h @ h') m = JSON_stringify h m"
  by (induction m) (auto simp: JSON_stringify_def wf_map_def nth_append)

lemma wf_map_append: "wf_map h m \<Longrightarrow> wf_map (h @ h') m"
  by (induction m) (auto simp: wf_map_def)

lemma stringify_fresh: "JSON_stringify (h @ map snd kvs) (fresh_map h kvs) = kvs"
proof -
  have "map (\<lambda>(k, a). (k, (h @ ys) ! a)) (zip ks [length h ..< length h + length ys]) = zip ks ys"
    if "length ks = length ys" for ks :: "string list" and ys
  proof (rule nth_equalityI)
    show "length (map (\<lambda>(k, a). (k, (h @ ys) ! a)) (zip ks [length h ..< length h + length ys]))
          = length (zip ks ys)"
      using that by simp
  next
    fix i
    assume "i < length (map (\<lambda>(k, a). (k, (h @ ys) ! a)) (zip ks [length h ..< length h + length ys]))"
    then have i: "i < length ys" "i < length ks"
      using that by simp_all
    then show "map (\<lambda>(k, a). (k, (h @ ys) ! a)) (zip ks [length h ..< length h + length ys]) ! i
               = zip ks ys ! i"
      by (simp add: nth_append)
  qed
  from this [of "map fst kvs" "map snd kvs"] show ?thesis
    by (simp add: JSON_stringify_def fresh_map_def zip_map_fst_snd)
qed

lemma fresh_map_keys: "map fst (fresh_map h kvs) = map fst kvs"
  by (simp add: fresh_map_def)

lemma fresh_map_addrs: "(k, a) \<in> set (fresh_map h kvs) \<Longrightarrow> length h \<le> a \<and> a < length h + length kvs"
  by (auto simp: fresh_map_def dest!: set_zip_rightD)

lemma wf_map_fresh: "distinct (map fst kvs) \<Longrightarrow> wf_map (h @ map snd kvs) (fresh_map h kvs)"
  by (auto simp: wf_map_def fresh_map_keys list_all_iff dest: fresh_map_addrs)

lemma stringify_keys: "map fst (JSON_stringify h m) = map fst m"
  by (induction m) (auto simp: JSON_stringify_def)

lemma JSON_parse_fresh:
  "JSON_parse kvs s = (fresh_map (heap s) kvs, s\<lparr>heap := heap s @ map snd kvs\<rparr>)"
  by (simp add: JSON_parse_eq fresh_map_def)

lemma add_heap: "heap (addStateToHistory s) = heap s @ map snd (store s)"
  by (simp add: addStateToHistory_def JSON_parse_fresh Let_def emit_def store_def)

lemma add_items: "itemPositions (addStateToHistory s) = itemPositions s"
  by (simp add: addStateToHistory_def JSON_parse_fresh Let_def emit_def)

lemma add_dom: "pages (addStateToHistory s) = pages s" "items (addStateToHistory s) = items s"
  "selectedElementId (addStateToHistory s) = selectedElementId s"
  "draggedElement (addStateToHistory s) = draggedElement s"
  by (simp_all add: addStateToHistory_def JSON_parse_fresh Let_def emit_def)

lemma slice0_take: "0 \<le> e \<Longrightarrow> slice0 xs e = take (nat e) xs"
  by (auto simp: slice0_def Let_def min_def)

lemma add_history:
  assumes "history_ok s"
  shows "positionHistory (addStateToHistory s) =
           (if historyIndex s = 99 then tl (positionHistory s) else take (nat (historyIndex s + 1)) (positionHistory s))
           @ [fresh_map (heap s) (store s)]"
    and "historyIndex (addStateToHistory s) = (if historyIndex s = 99 then 99 else historyIndex s + 1)"
proof -
  let ?hist = "positionHistory s" and ?i = "historyIndex s"
  from assms have b: "- 1 \<le> ?i" "?i < int (length ?hist)" "length ?hist \<le> 100"
    by (simp_all add: history_ok_def maxHistorySize_def)
  have full: "?i = 99 \<Longrightarrow> length ?hist = 100 \<and> ?hist \<noteq> []"
    using b by auto
  show "positionHistory (addStateToHistory s) =
           (if ?i = 99 then tl ?hist else take (nat (?i + 1)) ?hist) @ [fresh_map (heap s) (store s)]"
    using b full
    by (auto simp: addStateToHistory_def JSON_parse_fresh Let_def emit_def store_def
        slice0_take maxHistorySize_def)
  show "historyIndex (addStateToHistory s) = (if ?i = 99 then 99 else ?i + 1)"
    using b full
    by (auto simp: addStateToHistory_def JSON_parse_fresh Let_def emit_def store_def
        slice0_take maxHistorySize_def)
qed

lemma add_history_ok: "history_ok s \<Longrightarrow> history_ok (addStateToHistory s)"
  by (frule add_history(1), frule add_history(2))
     (auto simp: history_ok_def maxHistorySize_def)

lemma add_index_top:
  "history_ok s \<Longrightarrow> historyIndex (addStateToHistory s) = int (length (positionHistory (addStateToHistory s))) - 1"
  by (frule add_history(1), frule add_history(2))
     (auto simp: history_ok_def maxHistorySize_def)

lemma wf_heap_append: "wf s \<Longrightarrow> wf (s\<lparr>heap := heap s @ h'\<rparr>)"
  by (auto simp: wf_def list_all_iff intro: wf_map_append)

lemma store_keys: "map fst (store s) = map fst (itemPositions s)"
  by (simp add: store_def stringify_keys)

lemma add_wf:
  assumes "wf s" "history_ok s"
  shows "wf (addStateToHistory s)"
proof -
  have d: "distinct (map fst (store s))"
    using assms(1) by (simp add: store_keys wf_def wf_map_def)
  have new: "wf_map (heap s @ map snd (store s)) (fresh_map (heap s) (store s))"
    by (rule wf_map_fresh [OF d])
  have old: "list_all (wf_map (heap s @ map snd (store s))) (positionHistory s)"
    using assms(1) by (auto simp: wf_def list_all_iff intro: wf_map_append)
  have "list_all (wf_map (heap s @ map snd (store s))) (tl (positionHistory s))"
    using old by (cases "positionHistory s") auto
  moreover have "list_all (wf_map (heap s @ map snd (store s))) (take n (positionHistory s))" for n
    using old by (auto simp: list_all_iff dest: in_set_takeD)
  ultimately show ?thesis
    using assms new
    by (auto simp: wf_def add_heap add_items add_history intro: wf_map_append)
qed

lemma add_store: "wf s \<Longrightarrow> store (addStateToHistory s) = store s"
  by (simp add: store_def add_heap add_items stringify_append wf_def)

lemma snapshots_append_heap:
  "list_all (wf_map h) ms \<Longrightarrow> map (JSON_stringify (h @ h')) ms = map (JSON_stringify h) ms"
  by (induction ms) (auto simp: stringify_append)

lemma add_snapshots:
  assumes "wf s" "history_ok s"
  shows "snapshots (addStateToHistory s) =
           (if historyIndex s = 99 then tl (snapshots s) else take (nat (historyIndex s + 1)) (snapshots s))
           @ [store s]"
proof -
  have old: "list_all (wf_map (heap s)) (positionHistory s)"
    using assms(1) by (simp add: wf_def)
  then have "list_all (wf_map (heap s)) (tl (positionHistory s))"
    by (cases "positionHistory s") auto
  moreover have "list_all (wf_map (heap s)) (take n (positionHistory s))" for n
    using old by (auto simp: list_all_iff dest: in_set_takeD)
  ultimately show ?thesis
    using assms
    by (simp add: snapshots_def add_heap add_history snapshots_append_heap stringify_fresh
        map_tl take_map [symmetric] del: take_map)
qed

lemma restore_eq:
  assumes "index (positionHistory s) (historyIndex s) = Some snap" "wf_map (heap s) snap"
  shows "restore s =
           (Inr (Some (fresh_map (heap s) (JSON_stringify (heap s) snap))),
            s\<lparr>heap := heap s @ map snd (JSON_stringify (heap s) snap),
              itemPositions := fresh_map (heap s) (JSON_stringify (heap s) snap)\<rparr>)"
proof -
  let ?kvs = "JSON_stringify (heap s) snap"
  let ?s1 = "s\<lparr>heap := heap s @ map snd ?kvs\<rparr>"
  have d: "distinct (map fst (fresh_map (heap s) ?kvs))"
    using assms(2) by (simp add: fresh_map_keys stringify_keys wf_map_def)
  have "Object_assign (fresh_map (heap s) ?kvs) (?s1\<lparr>itemPositions := []\<rparr>)
        = (?s1\<lparr>itemPositions := []\<rparr>)\<lparr>itemPositions := itemPositions (?s1\<lparr>itemPositions := []\<rparr>) @ fresh_map (heap s) ?kvs\<rparr>"
    by (rule Object_assign_fold [OF d]) simp
  then show ?thesis
    using assms(1)
    by (simp add: restore_def JSON_parse_fresh clearItemPositions_eq)
qed

lemma index_Some: "0 \<le> i \<Longrightarrow> i < int (length xs) \<Longrightarrow> index xs i = Some (xs ! nat i)"
  by (simp add: index_def)

lemma wf_snapshot: "wf s \<Longrightarrow> 0 \<le> i \<Longrightarrow> i < int (length (positionHistory s)) \<Longrightarrow>
  wf_map (heap s) (positionHistory s ! nat i)"
  by (auto simp: wf_def list_all_iff)

text \<open>What a successful restore at index j does, in terms of contents.\<close>

lemma restore_at:
  assumes "wf s" "0 \<le> historyIndex s" "historyIndex s < int (length (positionHistory s))"
  shows "\<exists>r s'. restore s = (Inr (Some r), s') \<and> wf s' \<and> unaliased s'
           \<and> store s' = snapshots s ! nat (historyIndex s)
           \<and> snapshots s' = snapshots s
           \<and> historyIndex s' = historyIndex s
           \<and> length (positionHistory s') = length (positionHistory s)
           \<and> JSON_stringify (heap s') r = store s'"
proof -
  let ?snap = "positionHistory s ! nat (historyIndex s)"
  let ?kvs = "JSON_stringify (heap s) ?snap"
  let ?m = "fresh_map (heap s) ?kvs"
  let ?s' = "s\<lparr>heap := heap s @ map snd ?kvs, itemPositions := ?m\<rparr>"
  have wsnap: "wf_map (heap s) ?snap"
    using assms by (rule wf_snapshot)
  have r: "restore s = (Inr (Some ?m), ?s')"
    using assms wsnap by (intro restore_eq) (simp_all add: index_Some)
  have d: "distinct (map fst ?kvs)"
    using wsnap by (simp add: stringify_keys wf_map_def)
  have hist: "list_all (wf_map (heap s)) (positionHistory s)"
    using assms(1) by (simp add: wf_def)
  have wf': "wf ?s'"
    using hist wf_map_fresh [OF d]
    by (auto simp: wf_def list_all_iff intro: wf_map_append)
  have un: "unaliased ?s'"
  proof -
    have "a' \<noteq> a" if "(k, a) \<in> set ?m" "m \<in> set (positionHistory s)" "(k', a') \<in> set m" for k a m k' a'
    proof -
      from that(1) have "length (heap s) \<le> a" by (auto dest: fresh_map_addrs)
      moreover from hist that(2,3) have "a' < length (heap s)"
        by (auto simp: list_all_iff wf_map_def)
      ultimately show ?thesis by simp
    qed
    then show ?thesis
      by (fastforce simp: unaliased_def list_all_iff)
  qed
  have st: "store ?s' = snapshots s ! nat (historyIndex s)"
    using assms by (simp add: store_def stringify_fresh snapshots_def)
  have sn: "snapshots ?s' = snapshots s"
    using hist by (simp add: snapshots_def snapshots_append_heap)
  show ?thesis
    using r wf' un st sn by (simp add: store_def)
qed

lemma undo_None: "historyIndex s \<le> 0 \<Longrightarrow> undoHistory s = (Inr None, s)"
  by (simp add: undoHistory_def)

lemma redo_None: "int (length (positionHistory s)) - 1 \<le> historyIndex s \<Longrightarrow> redoHistory s = (Inr None, s)"
  by (simp add: redoHistory_def)

lemma wf_index_upd: "wf (s\<lparr>historyIndex := i\<rparr>) = wf s"
  by (simp add: wf_def)

lemma snapshots_index_upd: "snapshots (s\<lparr>historyIndex := i\<rparr>) = snapshots s"
  by (simp add: snapshots_def)

lemma undo_step:
  assumes "wf s" "0 < historyIndex s" "historyIndex s < int (length (positionHistory s))"
  shows "\<exists>r s'. undoHistory s = (Inr (Some r), s') \<and> wf s' \<and> unaliased s'
           \<and> store s' = snapshots s ! nat (historyIndex s - 1)
           \<and> snapshots s' = snapshots s
           \<and> historyIndex s' = historyIndex s - 1
           \<and> length (positionHistory s') = length (positionHistory s)
           \<and> JSON_stringify (heap s') r = store s'"
proof -
  let ?s = "s\<lparr>historyIndex := historyIndex s - 1\<rparr>"
  have "wf ?s" "0 \<le> historyIndex ?s" "historyIndex ?s < int (length (positionHistory ?s))"
    using assms by (simp_all add: wf_index_upd)
  from restore_at [OF this] show ?thesis
    using assms(2) by (simp add: undoHistory_def snapshots_index_upd)
qed

lemma redo_step:
  assumes "wf s" "- 1 \<le> historyIndex s" "historyIndex s < int (length (positionHistory s)) - 1"
  shows "\<exists>r s'. redoHistory s = (Inr (Some r), s') \<and> wf s' \<and> unaliased s'
           \<and> store s' = snapshots s ! nat (historyIndex s + 1)
           \<and> snapshots s' = snapshots s
           \<and> historyIndex s' = historyIndex s + 1
           \<and> length (positionHistory s') = length (positionHistory s)
           \<and> JSON_stringify (heap s') r = store s'"
proof -
  let ?s = "s\<lparr>historyIndex := historyIndex s + 1\<rparr>"
  have "wf ?s" "0 \<le> historyIndex ?s" "historyIndex ?s < int (length (positionHistory ?s))"
    using assms by (simp_all add: wf_index_upd)
  from restore_at [OF this] show ?thesis
    using assms(3) by (simp add: redoHistory_def snapshots_index_upd)
qed

lemma update_twice: "AList.update k v (AList.update k v' ps) = AList.update k v ps"
  by (induction ps) auto

lemma clean_defaults_fresh:
  "clean_defaults (length h) (t\<lparr>heap := h @ [r], itemPositions := m\<rparr>)
     = t\<lparr>heap := h @ [cleanup r], itemPositions := m\<rparr>"
  by (simp add: clean_defaults_def cleanup_def delete_opacity_def delete_rotation_def Let_def
         split: option.splits)

lemma updateItemPosition_eq:
  "updateItemPosition i pd s =
     (case map_of (itemPositions s) i of
        None \<Rightarrow> s\<lparr>heap := heap s @ [default_position, cleanup (spread default_position pd)],
                   itemPositions := AList.update i (Suc (length (heap s))) (itemPositions s)\<rparr>
      | Some a \<Rightarrow> s\<lparr>heap := heap s @ [cleanup (spread (heap s ! a) pd)],
                     itemPositions := AList.update i (length (heap s)) (itemPositions s)\<rparr>)"
  using clean_defaults_fresh [of "heap s @ [default_position]"]  clean_defaults_fresh [of "heap s"]
  by (simp add: updateItemPosition_def alloc_def assign_item_def Let_def
        default_position_def update_twice nth_append split: option.splits)

lemma cleanup_fields:
  "left (cleanup r) = left r" "top_css (cleanup r) = top_css r" "width (cleanup r) = width r"
  "height (cleanup r) = height r" "pageIndex (cleanup r) = pageIndex r"
  "scale (cleanup r) = scale r" "parser (cleanup r) = parser r" "filepath (cleanup r) = filepath r"
  "id_key (cleanup r) = id_key r"
  "opacity (cleanup r) = (case opacity r of Some v \<Rightarrow> if v \<ge> 1 then None else Some v | None \<Rightarrow> None)"
  "rotation (cleanup r) = (case rotation r of Some v \<Rightarrow> if v = 0 then None else Some v | None \<Rightarrow> None)"
  by (simp_all add: cleanup_def Let_def split: option.splits)

lemma map_of_update_same: "map_of (AList.update k v ps) k = Some v"
  by (simp add: update_conv')

lemma getItemPosition_update:
  "getItemPosition i (updateItemPosition i pd s) =
     Some (cleanup (spread (case map_of (itemPositions s) i of
                              None \<Rightarrow> default_position | Some a \<Rightarrow> heap s ! a) pd))"
  by (simp add: updateItemPosition_eq getItemPosition_def map_of_update_same nth_append
      split: option.splits)

lemma spread_no_props: "spread r no_props = r"
  by (simp add: spread_def no_props_def)

lemma clean_defaults_fresh_heap:
  "clean_defaults (length h) (t\<lparr>heap := h @ [r]\<rparr>) = t\<lparr>heap := h @ [cleanup r]\<rparr>"
  by (simp add: clean_defaults_def cleanup_def delete_opacity_def delete_rotation_def Let_def
         split: option.splits)

lemma dataToSave_eq:
  "dataToSave i a s =
     (length (heap s),
      (if falsy (filepath (heap s ! a)) then emit (Warn_missing_filepath i) s else s)
        \<lparr>heap := heap s @ [save_form i (heap s ! a)]\<rparr>)"
  by (simp add: dataToSave_def alloc_def spread_no_props Let_def save_form_def
      clean_defaults_fresh_heap cleanup_fields
      delete_scale_def set_id_key_def emit_def
      split: option.splits)

lemma add_n_ok: "wf s \<Longrightarrow> history_ok s \<Longrightarrow>
  wf ((addStateToHistory ^^ n) s) \<and> history_ok ((addStateToHistory ^^ n) s)"
  by (induction n) (auto simp: add_wf add_history_ok)

lemma add_n_top: "wf s \<Longrightarrow> history_ok s \<Longrightarrow> 0 < n \<Longrightarrow>
  historyIndex ((addStateToHistory ^^ n) s) = int (length (positionHistory ((addStateToHistory ^^ n) s))) - 1"
  by (cases n) (auto simp: add_index_top add_n_ok)

lemma undo_times_ok:
  assumes "wf s" "historyIndex s < int (length (positionHistory s))"
  shows "\<exists>s'. undo_times k s = Inr s' \<and> wf s' \<and> snapshots s' = snapshots s
           \<and> length (positionHistory s') = length (positionHistory s)
           \<and> historyIndex s' = (if historyIndex s \<le> 0 then historyIndex s else max 0 (historyIndex s - int k))
           \<and> (0 < k \<and> 0 < historyIndex s \<longrightarrow> store s' = snapshots s ! nat (historyIndex s - int k))"
  using assms
proof (induction k arbitrary: s)
  case 0
  then show ?case by simp
next
  case (Suc k)
  show ?case
  proof (cases "0 < historyIndex s")
    case False
    then have u: "undoHistory s = (Inr None, s)"
      by (simp add: undo_None)
    from Suc.IH [OF Suc.prems] False u show ?thesis
      by auto
  next
    case True
    from undo_step [OF Suc.prems(1) True Suc.prems(2)]
    obtain r s1 where s1: "undoHistory s = (Inr (Some r), s1)" "wf s1"
      "store s1 = snapshots s ! nat (historyIndex s - 1)" "snapshots s1 = snapshots s"
      "historyIndex s1 = historyIndex s - 1"
      "length (positionHistory s1) = length (positionHistory s)"
      by blast
    have lt: "historyIndex s1 < int (length (positionHistory s1))"
      using s1 Suc.prems(2) by simp
    from Suc.IH [OF s1(2) lt]
    obtain s' where s': "undo_times k s1 = Inr s'" "wf s'" "snapshots s' = snapshots s1"
      "length (positionHistory s') = length (positionHistory s1)"
      "historyIndex s' = (if historyIndex s1 \<le> 0 then historyIndex s1 else max 0 (historyIndex s1 - int k))"
      "0 < k \<and> 0 < historyIndex s1 \<longrightarrow> store s' = snapshots s1 ! nat (historyIndex s1 - int k)"
      by blast
    have st: "store s' = snapshots s ! nat (historyIndex s - int (Suc k))"
    proof (cases "0 < k \<and> 0 < historyIndex s1")
      case True
      with s'(6) s1 show ?thesis by (simp add: algebra_simps)
    next
      case False
      then consider "k = 0" | "historyIndex s1 \<le> 0" by auto
      then show ?thesis
      proof cases
        case 1
        with s'(1) s1 show ?thesis by simp
      next
        case 2
        then have "undo_times k s1 = Inr s1"
          by (induction k) (simp_all add: undo_None)
        with s'(1) have "s' = s1" by simp
        moreover have "nat (historyIndex s - int (Suc k)) = 0" "nat (historyIndex s - 1) = 0"
          using 2 s1(5) by simp_all
        ultimately show ?thesis using s1(3) by simp
      qed
    qed
    show ?thesis
      using s1 s' st True by (auto simp: max_def)
  qed
qed

lemma funpow_add_store:
  "wf s \<Longrightarrow> history_ok s \<Longrightarrow> store ((addStateToHistory ^^ n) s) = store s"
  by (induction n) (simp_all add: add_store add_n_ok)

lemma add_last_snapshot:
  "wf s \<Longrightarrow> history_ok s \<Longrightarrow> last (snapshots (addStateToHistory s)) = store s"
  by (simp add: add_snapshots)

lemma snapshots_length: "length (snapshots s) = length (positionHistory s)"
  by (simp add: snapshots_def)

lemma update_set: "(k', a') \<in> set (AList.update k v ps) \<Longrightarrow> (k', a') = (k, v) \<or> (k', a') \<in> set ps"
  by (induction ps) (auto split: if_splits)

lemma wf_map_update:
  "wf_map h m \<Longrightarrow> a < length h \<Longrightarrow> wf_map h (AList.update k a m)"
  by (auto simp: wf_map_def list_all_iff distinct_update dest!: update_set)

lemma wf_map_delete: "wf_map h m \<Longrightarrow> wf_map h (AList.delete k m)"
proof -
  assume w: "wf_map h m"
  then have "distinct (map fst (AList.delete k m))"
    by (simp add: wf_map_def distinct_delete)
  moreover have "list_all (\<lambda>(k, a). a < length h) (AList.delete k m)"
    using w by (auto simp: wf_map_def list_all_iff AList.delete_eq)
  ultimately show ?thesis
    by (simp add: wf_map_def)
qed

lemma wf_map_Nil: "wf_map h []"
  by (simp add: wf_map_def)

lemma mutate_history:
  "positionHistory (mutate m s) = positionHistory s" "historyIndex (mutate m s) = historyIndex s"
  by (cases m; simp add: updateItemPosition_eq deleteItemPosition_def clearItemPositions_eq
      split: option.splits)+

lemma mutate_heap: "\<exists>h'. heap (mutate m s) = heap s @ h'"
  by (cases m) (simp_all add: updateItemPosition_eq deleteItemPosition_def clearItemPositions_eq
      split: option.splits)

lemma mutate_wf: "wf s \<Longrightarrow> wf (mutate m s)"
proof (cases m)
  case (Upsert i p)
  assume w: "wf s"
  then have hist: "list_all (wf_map (heap s @ h')) (positionHistory s)" for h'
    by (auto simp: wf_def list_all_iff intro: wf_map_append)
  have st: "wf_map (heap s @ h') (itemPositions s)" for h'
    using w by (auto simp: wf_def intro: wf_map_append)
  show ?thesis
    using hist st
    by (auto simp: Upsert updateItemPosition_eq wf_def intro!: wf_map_update split: option.splits)
next
  case (Remove i)
  assume "wf s"
  then show ?thesis
    by (simp add: Remove deleteItemPosition_def wf_def wf_map_delete)
next
  case Clear
  assume "wf s"
  then show ?thesis
    by (simp add: Clear clearItemPositions_eq wf_def wf_map_Nil)
qed

lemma mutate_snapshots: "wf s \<Longrightarrow> snapshots (mutate m s) = snapshots s"
proof -
  assume w: "wf s"
  obtain h' where h': "heap (mutate m s) = heap s @ h'"
    using mutate_heap by blast
  from w have "list_all (wf_map (heap s)) (positionHistory s)"
    by (simp add: wf_def)
  then show ?thesis
    by (simp add: snapshots_def mutate_history h' snapshots_append_heap)
qed

lemma mutate_history_ok: "history_ok (mutate m s) = history_ok s"
  by (simp add: history_ok_def mutate_history)

lemma fold_mutate:
  "wf s \<Longrightarrow> wf (fold mutate ms s) \<and> snapshots (fold mutate ms s) = snapshots s
     \<and> history_ok (fold mutate ms s) = history_ok s
     \<and> historyIndex (fold mutate ms s) = historyIndex s"
  by (induction ms arbitrary: s) (simp_all add: mutate_wf mutate_snapshots mutate_history_ok mutate_history)

lemma initializeHistory_eq:
  "initializeHistory (itemPositions s) s =
     emit Log_history_initialized
       (s\<lparr>heap := heap s @ map snd (store s),
          positionHistory := [fresh_map (heap s) (store s)], historyIndex := 0\<rparr>)"
  by (simp add: initializeHistory_def JSON_parse_fresh store_def)

lemma initializeHistory_props:
  assumes "wf s"
  shows "wf (initializeHistory (itemPositions s) s)"
    and "history_ok (initializeHistory (itemPositions s) s)"
    and "snapshots (initializeHistory (itemPositions s) s) = [store s]"
    and "store (initializeHistory (itemPositions s) s) = store s"
    and "historyIndex (initializeHistory (itemPositions s) s) = 0"
proof -
  have d: "distinct (map fst (store s))"
    using assms by (simp add: store_keys wf_def wf_map_def)
  show "wf (initializeHistory (itemPositions s) s)"
    using assms wf_map_fresh [OF d]
    by (auto simp: initializeHistory_eq emit_def wf_def intro: wf_map_append)
  show "history_ok (initializeHistory (itemPositions s) s)"
    by (simp add: initializeHistory_eq emit_def history_ok_def maxHistorySize_def)
  show "snapshots (initializeHistory (itemPositions s) s) = [store s]"
    by (simp add: initializeHistory_eq emit_def snapshots_def stringify_fresh)
  show "store (initializeHistory (itemPositions s) s) = store s"
    using assms by (simp add: initializeHistory_eq emit_def store_def stringify_append wf_def)
  show "historyIndex (initializeHistory (itemPositions s) s) = 0"
    by (simp add: initializeHistory_eq emit_def)
qed

lemma record_undo_redo:
  assumes "wf s" "history_ok s" "0 \<le> historyIndex s"
  shows "\<exists>ra sa rb sb.
           undoHistory (addStateToHistory s) = (Inr (Some ra), sa)
         \<and> store sa = snapshots s ! nat (historyIndex s)
         \<and> JSON_stringify (heap sa) ra = store sa
         \<and> unaliased sa
         \<and> redoHistory sa = (Inr (Some rb), sb)
         \<and> store sb = store s
         \<and> JSON_stringify (heap sb) rb = store sb
         \<and> unaliased sb"
proof -
  let ?t = "addStateToHistory s"
  let ?i = "historyIndex s"
  have b: "?i < int (length (positionHistory s))" "length (positionHistory s) \<le> 100"
    using assms(2) by (simp_all add: history_ok_def maxHistorySize_def)
  have wt: "wf ?t" using assms(1,2) by (rule add_wf)
  have idx: "historyIndex ?t = (if ?i = 99 then 99 else ?i + 1)"
    using assms(2) by (rule add_history(2))
  have top: "historyIndex ?t = int (length (positionHistory ?t)) - 1"
    using assms(2) by (rule add_index_top)
  have sn: "snapshots ?t = (if ?i = 99 then tl (snapshots s) else take (nat (?i + 1)) (snapshots s)) @ [store s]"
    using assms(1,2) by (rule add_snapshots)
  have pos: "0 < historyIndex ?t" using idx assms(3) by simp
  have lt: "historyIndex ?t < int (length (positionHistory ?t))" using top by simp
  from undo_step [OF wt pos lt]
  obtain ra sa where sa: "undoHistory ?t = (Inr (Some ra), sa)" "wf sa" "unaliased sa"
    "store sa = snapshots ?t ! nat (historyIndex ?t - 1)" "snapshots sa = snapshots ?t"
    "historyIndex sa = historyIndex ?t - 1"
    "length (positionHistory sa) = length (positionHistory ?t)"
    "JSON_stringify (heap sa) ra = store sa"
    by blast
  have ls: "length (snapshots s) = length (positionHistory s)"
    by (simp add: snapshots_length)
  have A: "snapshots ?t ! nat (historyIndex ?t - 1) = snapshots s ! nat ?i"
  proof (cases "?i = 99")
    case True
    then have "length (snapshots s) = 100" using b ls by simp
    then show ?thesis
      using True by (simp add: sn idx nth_append nth_tl)
  next
    case False
    then show ?thesis
      using assms(3) b ls by (simp add: sn idx nth_append)
  qed
  have r1: "- 1 \<le> historyIndex sa" "historyIndex sa < int (length (positionHistory sa)) - 1"
    using sa(6,7) pos top by simp_all
  from redo_step [OF sa(2) r1]
  obtain rb sb where sb: "redoHistory sa = (Inr (Some rb), sb)" "unaliased sb"
    "store sb = snapshots sa ! nat (historyIndex sa + 1)"
    "JSON_stringify (heap sb) rb = store sb"
    by blast
  have "nat (historyIndex sa + 1) = length (snapshots ?t) - 1"
    using sa(6) top pos by (simp add: snapshots_length)
  moreover have "snapshots ?t \<noteq> []"
    by (simp add: sn)
  ultimately have "snapshots sa ! nat (historyIndex sa + 1) = last (snapshots ?t)"
    by (simp add: sa(5) last_conv_nth)
  then have B: "store sb = store s"
    using sb(3) by (simp add: sn)
  show ?thesis
    using sa(1,3,4,8) A sb(1,2,4) B by auto
qed

lemma positionsToSave_eq:
  assumes "list_all (\<lambda>(k, a). a < length (heap s)) es"
  shows "positionsToSave es s =
           ([length (heap s) ..< length (heap s) + length es],
            s\<lparr>heap := heap s @ map (\<lambda>(i, a). save_form i (heap s ! a)) es,
              trace := trace s @ map (\<lambda>(i, a). Warn_missing_filepath i)
                         (filter (\<lambda>(i, a). falsy (filepath (heap s ! a))) es)\<rparr>)"
  using assms
proof (induction es arbitrary: s)
  case Nil
  show ?case by simp
next
  case (Cons e es)
  obtain i a where e: "e = (i, a)" by (cases e)
  define s1 where "s1 = snd (dataToSave i a s)"
  have h1: "heap s1 = heap s @ [save_form i (heap s ! a)]"
    by (simp add: s1_def dataToSave_eq emit_def)
  have t1: "trace s1 = trace s @ (if falsy (filepath (heap s ! a)) then [Warn_missing_filepath i] else [])"
    by (simp add: s1_def dataToSave_eq emit_def)
  have s1: "s1 = s\<lparr>heap := heap s @ [save_form i (heap s ! a)],
                    trace := trace s @ (if falsy (filepath (heap s ! a)) then [Warn_missing_filepath i] else [])\<rparr>"
    by (simp add: s1_def dataToSave_eq emit_def)
  have all: "list_all (\<lambda>(k, a). a < length (heap s1)) es"
    using Cons.prems by (auto simp: h1 list_all_iff)
  have same: "map (\<lambda>(i, a). save_form i (heap s1 ! a)) es = map (\<lambda>(i, a). save_form i (heap s ! a)) es"
    using Cons.prems by (auto simp: h1 list_all_iff nth_append e)
  have samef: "filter (\<lambda>(i, a). falsy (filepath (heap s1 ! a))) es
               = filter (\<lambda>(i, a). falsy (filepath (heap s ! a))) es"
    using Cons.prems by (intro filter_cong) (auto simp: h1 list_all_iff nth_append e)
  have d: "dataToSave i a s = (length (heap s), s1)"
    by (simp add: s1_def dataToSave_eq)
  have "positionsToSave (e # es) s
        = (length (heap s) # fst (positionsToSave es s1), snd (positionsToSave es s1))"
    by (simp add: e d split_def Let_def)
  also have "\<dots> = (length (heap s) # [length (heap s1) ..< length (heap s1) + length es],
       s1\<lparr>heap := heap s1 @ map (\<lambda>(i, a). save_form i (heap s ! a)) es,
         trace := trace s1 @ map (\<lambda>(i, a). Warn_missing_filepath i)
                         (filter (\<lambda>(i, a). falsy (filepath (heap s ! a))) es)\<rparr>)"
    by (simp add: Cons.IH [OF all] same samef)
  also have "\<dots> = ([length (heap s) ..< length (heap s) + length (e # es)],
            s\<lparr>heap := heap s @ map (\<lambda>(i, a). save_form i (heap s ! a)) (e # es),
              trace := trace s @ map (\<lambda>(i, a). Warn_missing_filepath i)
                         (filter (\<lambda>(i, a). falsy (filepath (heap s ! a))) (e # es))\<rparr>)"
    unfolding h1 t1 by (simp add: s1 e upt_rec [of "length (heap s)"] del: upt_Suc)
  finally show ?case .
qed

lemma savePositions_eq:
  assumes "wf s"
  shows "savePositions s =
           s\<lparr>heap := heap s @ map (\<lambda>(i, r). save_form i r) (store s),
             trace := trace s
               @ map (\<lambda>(i, r). Warn_missing_filepath i) (filter (\<lambda>(i, r). falsy (filepath r)) (store s))
               @ [Post_save_positions (map (\<lambda>(i, r). save_form i r) (store s))]\<rparr>"
proof -
  let ?es = "itemPositions s"
  have all: "list_all (\<lambda>(k, a). a < length (heap s)) ?es"
    using assms by (simp add: wf_def wf_map_def)
  have m1: "map (\<lambda>(i, a). save_form i (heap s ! a)) ?es = map (\<lambda>(i, r). save_form i r) (store s)"
    by (simp add: store_def JSON_stringify_def split_def comp_def)
  have m2: "map (\<lambda>(i, a). Warn_missing_filepath i) (filter (\<lambda>(i, a). falsy (filepath (heap s ! a))) ?es)
            = map (\<lambda>(i, r). Warn_missing_filepath i) (filter (\<lambda>(i, r). falsy (filepath r)) (store s))"
    by (simp add: store_def JSON_stringify_def split_def comp_def filter_map)
  have m3: "map (\<lambda>c. (heap s @ map (\<lambda>(i, r). save_form i r) (store s)) ! c)
              [length (heap s) ..< length (heap s) + length ?es]
            = map (\<lambda>(i, r). save_form i r) (store s)"
    by (rule nth_equalityI) (simp_all add: store_def JSON_stringify_def nth_append)
  show ?thesis
    by (simp add: savePositions_def positionsToSave_eq [OF all] m1 m2 m3 emit_def)
qed

section \<open>The history bound\<close>

text \<open>
  Claim C6. After any number \<open>n > 0\<close> of calls of \<^verbatim>\<open>addStateToHistory\<close> in a row, from a
  well-formed state whose history is in order, the history holds at most 100 snapshots.
  One call appends a copy of the live mapping; when the history is full (index 99) the
  oldest snapshot goes and the index, moved up by the push, is moved down again, so it
  stays on the new snapshot. \<^verbatim>\<open>undoHistory\<close>, called any number of times from there, never
  throws, and after as many calls as there are older snapshots the live mapping holds
  the oldest snapshot kept, the index is 0 and a further undo returns nothing.
\<close>
theorem history_bound:
  assumes "wf s" and "history_ok s" and "0 < n"
  shows "length (positionHistory ((addStateToHistory ^^ n) s)) \<le> 100
       \<and> snapshots (addStateToHistory s)
           = (if historyIndex s = 99 then tl (snapshots s)
              else take (nat (historyIndex s + 1)) (snapshots s)) @ [store s]
       \<and> historyIndex (addStateToHistory s) = (if historyIndex s = 99 then 99 else historyIndex s + 1)
       \<and> (\<forall>k. \<exists>s'. undo_times k ((addStateToHistory ^^ n) s) = Inr s')
       \<and> (\<exists>s'. undo_times (length (positionHistory ((addStateToHistory ^^ n) s)) - 1)
                   ((addStateToHistory ^^ n) s) = Inr s'
                \<and> historyIndex s' = 0
                \<and> store s' = hd (snapshots ((addStateToHistory ^^ n) s))
                \<and> undoHistory s' = (Inr None, s'))"
proof -
  let ?t = "(addStateToHistory ^^ n) s"
  have ok: "wf ?t" "history_ok ?t"
    using assms by (simp_all add: add_n_ok)
  have top: "historyIndex ?t = int (length (positionHistory ?t)) - 1"
    using assms by (rule add_n_top)
  have lt: "historyIndex ?t < int (length (positionHistory ?t))"
    using top by simp
  obtain m where n: "n = Suc m"
    using assms(3) by (cases n) auto
  have prev: "wf ((addStateToHistory ^^ m) s)" "history_ok ((addStateToHistory ^^ m) s)"
    using assms by (simp_all add: add_n_ok)
  have len: "0 < length (positionHistory ?t)"
    using add_history(1) [OF prev(2)] by (simp add: n)
  have bound: "length (positionHistory ?t) \<le> 100"
    using ok(2) by (simp add: history_ok_def maxHistorySize_def)
  have never: "\<exists>s'. undo_times k ?t = Inr s'" for k
    using undo_times_ok [OF ok(1) lt, of k] by blast
  have lastB: "last (snapshots ?t) = store ?t"
    using prev by (simp add: n add_last_snapshot add_store)
  let ?k = "length (positionHistory ?t) - 1"
  from undo_times_ok [OF ok(1) lt, of ?k]
  obtain s' where s': "undo_times ?k ?t = Inr s'" "snapshots s' = snapshots ?t"
    "historyIndex s' = (if historyIndex ?t \<le> 0 then historyIndex ?t else max 0 (historyIndex ?t - int ?k))"
    "0 < ?k \<and> 0 < historyIndex ?t \<longrightarrow> store s' = snapshots ?t ! nat (historyIndex ?t - int ?k)"
    by blast
  have idx0: "historyIndex s' = 0"
    using s'(3) top len by (cases "positionHistory ?t") (auto simp: max_def)
  have ne: "snapshots ?t \<noteq> []"
    using len by (simp add: snapshots_def)
  have st: "store s' = hd (snapshots ?t)"
  proof (cases "0 < ?k")
    case True
    then have "0 < historyIndex ?t" "nat (historyIndex ?t - int ?k) = 0"
      using top by simp_all
    with s'(4) True ne show ?thesis
      by (simp add: hd_conv_nth)
  next
    case False
    then have one: "length (snapshots ?t) = 1"
      using len by (cases "positionHistory ?t") (auto simp: snapshots_length)
    from False s'(1) have "s' = ?t" by simp
    moreover from one have "last (snapshots ?t) = hd (snapshots ?t)"
      by (cases "snapshots ?t") auto
    ultimately show ?thesis using lastB by simp
  qed
  have "undoHistory s' = (Inr None, s')"
    using idx0 by (simp add: undo_None)
  with s'(1) idx0 st have final: "\<exists>s'. undo_times ?k ?t = Inr s' \<and> historyIndex s' = 0
      \<and> store s' = hd (snapshots ?t) \<and> undoHistory s' = (Inr None, s')"
    by blast
  show ?thesis
    using bound never final add_snapshots [OF assms(1,2)] add_history(2) [OF assms(2)]
    by blast
qed

lemma wf_initial: "wf (initial_state ps es)" "history_ok (initial_state ps es)"
  by (simp_all add: wf_def wf_map_def history_ok_def initial_state_def)

theorem history_bound_witness:
  "wf (initial_state [] []) \<and> history_ok (initial_state [] []) \<and> (0::nat) < 150
   \<and> length (positionHistory ((addStateToHistory ^^ 150) (initial_state [] []))) \<le> 100
   \<and> (\<exists>s'. undo_times (length (positionHistory ((addStateToHistory ^^ 150) (initial_state [] []))) - 1)
                   ((addStateToHistory ^^ 150) (initial_state [] [])) = Inr s'
            \<and> historyIndex s' = 0)"
proof -
  have h: "wf (initial_state [] [])" "history_ok (initial_state [] [])" "(0::nat) < 150"
    by (simp_all add: wf_initial)
  from history_bound [OF h] h show ?thesis
    by blast
qed

section \<open>Recording after an undo\<close>

text \<open>
  Claim C8. When the index is not on the last snapshot, \<^verbatim>\<open>addStateToHistory\<close> drops every
  snapshot after the index before it appends the copy of the live mapping; the index
  then is on that copy, so \<^verbatim>\<open>redoHistory\<close> returns nothing and changes nothing.
\<close>
theorem record_discards_future:
  assumes "wf s" and "history_ok s" and "historyIndex s < int (length (positionHistory s)) - 1"
  shows "snapshots (addStateToHistory s) = take (nat (historyIndex s + 1)) (snapshots s) @ [store s]
       \<and> historyIndex (addStateToHistory s) = historyIndex s + 1
       \<and> redoHistory (addStateToHistory s) = (Inr None, addStateToHistory s)
       \<and> store (addStateToHistory s) = store s"
proof -
  have n99: "historyIndex s \<noteq> 99"
    using assms(2,3) by (simp add: history_ok_def maxHistorySize_def)
  have "history_ok (addStateToHistory s)"
    using assms(2) by (rule add_history_ok)
  have "redoHistory (addStateToHistory s) = (Inr None, addStateToHistory s)"
    using add_index_top [OF assms(2)] by (simp add: redo_None)
  then show ?thesis
    using n99 add_snapshots [OF assms(1,2)] add_history(2) [OF assms(2)] add_store [OF assms(1)]
    by simp
qed

theorem record_discards_future_witness:
  "wf three_deep \<and> history_ok three_deep
   \<and> historyIndex three_deep < int (length (positionHistory three_deep)) - 1
   \<and> redoHistory (addStateToHistory three_deep) = (Inr None, addStateToHistory three_deep)
   \<and> snapshots (addStateToHistory three_deep)
       = [ [(''a'', default_position\<lparr>left := Some ''10px''\<rparr>)],
          [(''a'', default_position\<lparr>left := Some ''20px''\<rparr>)],
          [(''a'', default_position\<lparr>left := Some ''20px''\<rparr>)]]"
proof -
  have h: "wf three_deep" "history_ok three_deep"
    "historyIndex three_deep < int (length (positionHistory three_deep)) - 1"
    by (simp_all add: three_deep_def initial_state_def wf_def wf_map_def history_ok_def
        maxHistorySize_def)
  have v: "take (nat (historyIndex three_deep + 1)) (snapshots three_deep) @ [store three_deep]
           = [ [(''a'', default_position\<lparr>left := Some ''10px''\<rparr>)],
              [(''a'', default_position\<lparr>left := Some ''20px''\<rparr>)],
              [(''a'', default_position\<lparr>left := Some ''20px''\<rparr>)]]"
    by (simp add: three_deep_def initial_state_def snapshots_def store_def JSON_stringify_def)
  from record_discards_future [OF h] h v show ?thesis
    by simp
qed

section \<open>Undo and redo\<close>

text \<open>
  Claim C7. Let the history be initialised with the live mapping in state A, let the
  mapping then be changed by any mutations to state B and \<^verbatim>\<open>addStateToHistory\<close> be called.
  Then \<^verbatim>\<open>undoHistory\<close> returns a mapping and leaves the live mapping with the content A,
  and \<^verbatim>\<open>redoHistory\<close> after it returns a mapping and leaves the live mapping with the
  content B. Both times no object of the live mapping is an object of a history
  snapshot: what is restored is a copy.
\<close>
theorem undo_redo_round_trip:
  assumes "wf s0"
  shows "\<exists>ra sa rb sb.
           undoHistory (addStateToHistory (fold mutate ms (initializeHistory (itemPositions s0) s0)))
             = (Inr (Some ra), sa)
         \<and> store sa = store s0
         \<and> JSON_stringify (heap sa) ra = store sa
         \<and> unaliased sa
         \<and> redoHistory sa = (Inr (Some rb), sb)
         \<and> store sb = store (fold mutate ms (initializeHistory (itemPositions s0) s0))
         \<and> JSON_stringify (heap sb) rb = store sb
         \<and> unaliased sb"
proof -
  let ?sA = "initializeHistory (itemPositions s0) s0"
  let ?sB = "fold mutate ms ?sA"
  have wA: "wf ?sA" and hA: "history_ok ?sA" and snA: "snapshots ?sA = [store s0]"
    and iA: "historyIndex ?sA = 0"
    using assms by (simp_all add: initializeHistory_props)
  from fold_mutate [OF wA, of ms]
  have wB: "wf ?sB" and snB: "snapshots ?sB = [store s0]" and hB: "history_ok ?sB"
    and iB: "historyIndex ?sB = 0"
    using hA snA iA by simp_all
  have i0: "0 \<le> historyIndex ?sB"
    using iB by simp
  from record_undo_redo [OF wB hB i0] show ?thesis
    by (simp add: snB iB)
qed

theorem undo_redo_round_trip_witness:
  "wf (initial_state [] [])
   \<and> (\<exists>ra sa rb sb.
           undoHistory (addStateToHistory (fold mutate [Upsert ''a'' (no_props\<lparr>p_left := Value ''5px''\<rparr>)]
              (initializeHistory (itemPositions (initial_state [] [])) (initial_state [] []))))
             = (Inr (Some ra), sa)
         \<and> store sa = []
         \<and> unaliased sa
         \<and> redoHistory sa = (Inr (Some rb), sb)
         \<and> store sb = [(''a'', default_position\<lparr>left := Some ''5px''\<rparr>)]
         \<and> unaliased sb)"
proof -
  have w: "wf (initial_state [] [])"
    by (rule wf_initial)
  have A: "store (initial_state [] []) = []"
    by (simp add: store_def initial_state_def JSON_stringify_def)
  have B: "store (fold mutate [Upsert ''a'' (no_props\<lparr>p_left := Value ''5px''\<rparr>)]
              (initializeHistory (itemPositions (initial_state [] [])) (initial_state [] [])))
           = [(''a'', default_position\<lparr>left := Some ''5px''\<rparr>)]"
    unfolding initializeHistory_eq
    by (simp add: updateItemPosition_eq store_def initial_state_def
        JSON_stringify_def emit_def fresh_map_def spread_def no_props_def cleanup_def
        default_position_def empty_item_def)
  from undo_redo_round_trip [OF w, of "[Upsert ''a'' (no_props\<lparr>p_left := Value ''5px''\<rparr>)]"]
  show ?thesis
    unfolding A B using w by blast
qed

section \<open>Saving leaves the live mapping alone\<close>

text \<open>
  Claim C10. \<^verbatim>\<open>savePositions\<close> leaves the live mapping unchanged: the mapping holds the
  same ids and addresses, every object that existed before the call has the value it
  had (the heap of before is a prefix of the heap of after), so the content of the
  mapping and of the history is the same; the clean-up (opacity of 1 or more, rotation
  0, scale "1" dropped, the id added when there is no file path) is done on copies,
  whose values are what the request carries.
\<close>
theorem savePositions_frame:
  assumes "wf s"
  shows "itemPositions (savePositions s) = itemPositions s
       \<and> take (length (heap s)) (heap (savePositions s)) = heap s
       \<and> store (savePositions s) = store s
       \<and> positionHistory (savePositions s) = positionHistory s
       \<and> snapshots (savePositions s) = snapshots s
       \<and> historyIndex (savePositions s) = historyIndex s
       \<and> last (trace (savePositions s))
           = Post_save_positions (map (\<lambda>(i, r). save_form i r) (store s))"
proof -
  have "store (savePositions s) = store s"
    using assms by (simp add: savePositions_eq store_def stringify_append wf_def)
  moreover have "snapshots (savePositions s) = snapshots s"
    using assms by (simp add: savePositions_eq snapshots_def snapshots_append_heap wf_def)
  ultimately show ?thesis
    using assms by (simp add: savePositions_eq)
qed

theorem savePositions_frame_witness:
  "wf scaled_one
   \<and> store (savePositions scaled_one)
       = [(''a'', default_position\<lparr>opacity := Some 1, scale := Some ''1'', rotation := Some 0\<rparr>)]
   \<and> last (trace (savePositions scaled_one))
       = Post_save_positions [default_position\<lparr>id_key := Some ''a''\<rparr>]"
proof -
  have w: "wf scaled_one"
    by (simp add: scaled_one_def initial_state_def wf_def wf_map_def)
  have st: "store scaled_one
      = [(''a'', default_position\<lparr>opacity := Some 1, scale := Some ''1'', rotation := Some 0\<rparr>)]"
    by (simp add: scaled_one_def initial_state_def store_def JSON_stringify_def)
  have sf: "save_form ''a'' (default_position\<lparr>opacity := Some 1, scale := Some ''1'', rotation := Some 0\<rparr>)
            = default_position\<lparr>id_key := Some ''a''\<rparr>"
    by (simp add: save_form_def cleanup_def default_position_def empty_item_def falsy_def)
  from savePositions_frame [OF w] w show ?thesis
    by (simp add: st sf)
qed

section \<open>Normalisation on upsert\<close>

text \<open>
  Claim C1, as the code has it. After \<^verbatim>\<open>updateItemPosition(id, partial)\<close> the record of
  the id exists, holds no opacity of 1 or more and no rotation 0; its scale is the one
  the merge gives (the scale of the partial if it has one, else the stored one), also
  when that is "1". This holds for every state, id and partial. The first theorem below
  proves it; the second shows the scale "1" kept, against the claim as stated.
\<close>
theorem upsert_normalizes:
  "\<exists>r. getItemPosition i (updateItemPosition i pd s) = Some r
       \<and> (case opacity r of None \<Rightarrow> True | Some v \<Rightarrow> v < 1)
       \<and> rotation r \<noteq> Some 0
       \<and> scale r = spread_prop (Option.bind (getItemPosition i s) scale) (p_scale pd)"
proof -
  let ?old = "case map_of (itemPositions s) i of None \<Rightarrow> default_position | Some a \<Rightarrow> heap s ! a"
  have g: "getItemPosition i (updateItemPosition i pd s) = Some (cleanup (spread ?old pd))"
    by (rule getItemPosition_update)
  have o: "case opacity (cleanup r) of None \<Rightarrow> True | Some v \<Rightarrow> v < 1" for r
    by (simp add: cleanup_fields split: option.splits)
  have ro: "rotation (cleanup r) \<noteq> Some 0" for r
    by (simp add: cleanup_fields split: option.splits)
  have sc: "scale (cleanup (spread ?old pd))
            = spread_prop (Option.bind (getItemPosition i s) scale) (p_scale pd)"
    by (simp add: cleanup_fields spread_def getItemPosition_def default_position_def
        empty_item_def split: option.splits)
  show ?thesis
    using g o ro sc by simp
qed

text \<open>
  A new record upserted with scale "1" keeps that scale.
\<close>

theorem upsert_keeps_scale_1:
  "Option.bind (getItemPosition ''x''
      (updateItemPosition ''x'' (no_props\<lparr>p_scale := Value ''1''\<rparr>) (initial_state [] []))) scale
   = Some ''1''"
  by (simp add: getItemPosition_update cleanup_fields spread_def no_props_def initial_state_def)

section \<open>Lemmas: steps that only allocate and emit\<close>

lemma grows_refl: "grows s s"
  by (simp add: grows_def)

lemma grows_trans: "grows s t \<Longrightarrow> grows t u \<Longrightarrow> grows s u"
  by (auto simp: grows_def)

lemma grows_fields:
  assumes "grows s s'"
  shows "itemPositions s' = itemPositions s" "positionHistory s' = positionHistory s"
    "historyIndex s' = historyIndex s" "pages s' = pages s" "items s' = items s"
    "selectedElementId s' = selectedElementId s" "draggedElement s' = draggedElement s"
    "\<exists>h'. heap s' = heap s @ h'" "\<exists>tr'. trace s' = trace s @ tr'"
  using assms by (auto simp: grows_def)

lemma grows_dataToSave: "grows s (snd (dataToSave i a s))"
  by (simp add: grows_def dataToSave_eq emit_def)

lemma grows_positionsToSave: "grows s (snd (positionsToSave es s))"
proof (induction es arbitrary: s)
  case Nil
  show ?case by (simp add: grows_refl)
next
  case (Cons e es)
  obtain i a where e: "e = (i, a)" by (cases e)
  have "grows (snd (dataToSave i a s)) (snd (positionsToSave es (snd (dataToSave i a s))))"
    by (rule Cons.IH)
  with grows_dataToSave [of s i a]
  have "grows s (snd (positionsToSave es (snd (dataToSave i a s))))"
    by (rule grows_trans)
  then show ?case
    by (simp add: e split_def Let_def)
qed

lemma grows_emit: "grows s (emit e s)"
  by (simp add: grows_def emit_def)

lemma grows_savePositions: "grows s (savePositions s)"
proof -
  have "grows s (snd (positionsToSave (itemPositions s) s))"
    by (rule grows_positionsToSave)
  moreover have "grows (snd (positionsToSave (itemPositions s) s)) (savePositions s)"
    by (simp add: savePositions_def split_def Let_def grows_emit)
  ultimately show ?thesis
    by (rule grows_trans)
qed

lemma getItemPosition_grows:
  "grows s s' \<Longrightarrow> map_of (itemPositions s) i = Some a \<Longrightarrow> a < length (heap s) \<Longrightarrow>
   getItemPosition i s' = getItemPosition i s"
  by (auto simp: grows_def getItemPosition_def nth_append)

lemma getItemPosition_add:
  "map_of (itemPositions s) i = Some a \<Longrightarrow> a < length (heap s) \<Longrightarrow>
   getItemPosition i (addStateToHistory s) = getItemPosition i s"
  by (simp add: getItemPosition_def add_heap add_items nth_append)

lemma updateAndSave_items: "itemPositions (updateAndSavePositions s) = itemPositions s"
  "items (updateAndSavePositions s) = items s"
  using grows_savePositions [of "addStateToHistory s"]
  by (simp_all add: updateAndSavePositions_def grows_fields add_items add_dom)

lemma getItemPosition_updateAndSave:
  assumes "map_of (itemPositions s) i = Some a" "a < length (heap s)"
  shows "getItemPosition i (updateAndSavePositions s) = getItemPosition i s"
proof -
  have "map_of (itemPositions (addStateToHistory s)) i = Some a" "a < length (heap (addStateToHistory s))"
    using assms by (simp_all add: add_items add_heap)
  from getItemPosition_grows [OF grows_savePositions this]
  show ?thesis
    using assms by (simp add: updateAndSavePositions_def getItemPosition_add)
qed

lemma update_address:
  "\<exists>a. map_of (itemPositions (updateItemPosition i pd s)) i = Some a
       \<and> a < length (heap (updateItemPosition i pd s))"
  by (simp add: updateItemPosition_eq map_of_update_same split: option.splits)

lemma getItemPosition_update_save:
  "getItemPosition i (updateAndSavePositions (updateItemPosition i pd s))
     = Some (cleanup (spread (case map_of (itemPositions s) i of
                                None \<Rightarrow> default_position | Some a \<Rightarrow> heap s ! a) pd))"
proof -
  obtain a where "map_of (itemPositions (updateItemPosition i pd s)) i = Some a"
    "a < length (heap (updateItemPosition i pd s))"
    using update_address by blast
  then show ?thesis
    by (simp add: getItemPosition_updateAndSave getItemPosition_update)
qed

section \<open>Dropping a file on a page\<close>



section \<open>Lemmas: what the handlers do to the history\<close>

lemma handleKeyDown_history:
  "positionHistory (handleKeyDown ev s) = positionHistory s
   \<and> historyIndex (handleKeyDown ev s) = historyIndex s"
proof -
  have "positionHistory (savePositions t) = positionHistory t
        \<and> historyIndex (savePositions t) = historyIndex t" for t
    using grows_savePositions [of t] by (simp add: grows_def)
  then show ?thesis
    by (simp add: handleKeyDown_def Let_def deleteItemPosition_def emit_def split: option.splits)
qed

lemma updateAndSave_trace:
  assumes "wf s" "history_ok s"
  shows "\<exists>i n. trace (updateAndSavePositions s) =
           trace s @ [Log_history_updated i n]
             @ map (\<lambda>(i, r). Warn_missing_filepath i) (filter (\<lambda>(i, r). falsy (filepath r)) (store s))
             @ [Post_save_positions (map (\<lambda>(i, r). save_form i r) (store s))]
         \<and> last (snapshots (updateAndSavePositions s)) = store s"
proof -
  have w: "wf (addStateToHistory s)"
    using assms by (rule add_wf)
  have t: "\<exists>i n. trace (addStateToHistory s) = trace s @ [Log_history_updated i n]"
    by (simp add: addStateToHistory_def JSON_parse_fresh Let_def emit_def)
  have sn: "snapshots (savePositions (addStateToHistory s)) = snapshots (addStateToHistory s)"
    using savePositions_frame [OF w] by simp
  show ?thesis
    using t sn assms
    by (auto simp: updateAndSavePositions_def savePositions_eq [OF w] add_store add_last_snapshot)
qed

section \<open>History pushes before saves\<close>

text \<open>
  Claim C3 asks that every save triggered by one drop, one wheel tick or one deletion
  comes right after one history push that holds the mapping as the gesture left it.
  The drop, wheel and file-drop handlers save through \<^verbatim>\<open>updateAndSavePositions\<close>, which
  pushes first (lemma \<open>updateAndSave_trace\<close>). \<^verbatim>\<open>handleKeyDown\<close> calls \<^verbatim>\<open>savePositions\<close>
  alone and never touches the history (lemma \<open>handleKeyDown_history\<close>). At the example
  state, pressing Delete on the selected item sends the save of the emptied mapping and
  nothing else: no push is logged, and the history still consists of the one snapshot
  that holds the item.
\<close>
theorem delete_not_recorded:
  "trace (handleKeyDown \<lparr>key = ''Delete'', confirm_answer = False\<rparr> selected_item)
     = [Post_save_positions []]
   \<and> store (handleKeyDown \<lparr>key = ''Delete'', confirm_answer = False\<rparr> selected_item) = []
   \<and> snapshots (handleKeyDown \<lparr>key = ''Delete'', confirm_answer = False\<rparr> selected_item)
       = [ [(''a'', item_a)]]
   \<and> historyIndex (handleKeyDown \<lparr>key = ''Delete'', confirm_answer = False\<rparr> selected_item) = 0"
  by (simp add: handleKeyDown_def selected_item_def initial_state_def truthy_def falsy_def
      getElementById_def new_element_def getItemPosition_def deleteItemPosition_def
      savePositions_def emit_def Let_def store_def snapshots_def JSON_stringify_def)

section \<open>Lemmas: the default arrangement\<close>

lemma dom_heap [simp]:
  "heap (emit e s) = heap s" "heap (appendChild k el s) = heap s" "heap (set_element el s) = heap s"
  "itemPositions (emit e s) = itemPositions s" "itemPositions (appendChild k el s) = itemPositions s"
  "itemPositions (set_element el s) = itemPositions s"
  "positionHistory (emit e s) = positionHistory s"
  "positionHistory (appendChild k el s) = positionHistory s"
  "positionHistory (set_element el s) = positionHistory s"
  "pages (emit e s) = pages s" "pages (appendChild k el s) = pages s"
  "pages (set_element el s) = pages s"
  by (simp_all add: emit_def appendChild_def set_element_def)

lemma dom_wf [simp]:
  "wf (emit e s) = wf s" "wf (appendChild k el s) = wf s" "wf (set_element el s) = wf s"
  by (simp_all add: wf_def)

lemma dom_store [simp]:
  "store (emit e s) = store s" "store (appendChild k el s) = store s"
  "store (set_element el s) = store s"
  by (simp_all add: store_def)

lemma dom_getItemPosition [simp]:
  "getItemPosition i (emit e s) = getItemPosition i s"
  "getItemPosition i (appendChild k el s) = getItemPosition i s"
  "getItemPosition i (set_element el s) = getItemPosition i s"
  by (simp_all add: getItemPosition_def)

lemma update_wf: "wf s \<Longrightarrow> wf (updateItemPosition i p s)"
  using mutate_wf [of s "Upsert i p"] by simp


lemma fit_item_state:
  "snd (fit_item W H cw i eh c s) = s \<or> snd (fit_item W H cw i eh c s) = emit (Warn_not_enough_pages i) s"
  by (simp add: fit_item_def Let_def)







section \<open>A failed load\<close>




text \<open>
  Outside the statement above: an error thrown while the loaded entries are stored (here
  by a \<^verbatim>\<open>null\<close> entry after a good one) reaches the fallback with the mapping cleared
  and refilled as far as the loop came.
\<close>

lemma load_stops_at_null_entry:
  "store (loadPositions no_suffix no_parse
            (Response 200 (Objects [Entry (default_position\<lparr>id_key := Some ''a''\<rparr>), Null_entry]))
            (initial_state [page_zero] []))
     = [(''a'', default_position\<lparr>id_key := Some ''a''\<rparr>)]"
  by (simp add: loadPositions_def ok_def clearItemPositions_eq initial_state_def falsy_def
      truthy_def default_position_def empty_item_def alloc_def assign_item_def emit_def
      initializeDefaultPositions_def draggable_items_def initializeHistory_def store_def
      JSON_stringify_def Let_def)

section \<open>Lemmas: elements of the page\<close>

lemma find_map_other:
  "el_id e \<noteq> i \<Longrightarrow>
   find (\<lambda>x. el_id x = i) (map (\<lambda>x. if el_id x = el_id e then e else x) xs)
     = find (\<lambda>x. el_id x = i) xs"
  by (induction xs) auto

lemma find_map_same:
  "find (\<lambda>x. el_id x = el_id e) xs \<noteq> None \<Longrightarrow>
   find (\<lambda>x. el_id x = el_id e) (map (\<lambda>x. if el_id x = el_id e then e else x) xs) = Some e"
  by (induction xs) auto

lemma find_filter_other:
  "j \<noteq> i \<Longrightarrow> el_id y \<noteq> i \<Longrightarrow>
   find (\<lambda>x. el_id x = i) (filter (\<lambda>x. el_id x \<noteq> j) xs @ [y]) = find (\<lambda>x. el_id x = i) xs"
  by (induction xs) auto

lemma find_filter_same:
  "el_id y = i \<Longrightarrow> find (\<lambda>x. el_id x = i) (filter (\<lambda>x. el_id x \<noteq> i) xs @ [y]) = Some y"
  by (induction xs) auto

lemma get_set_other: "el_id e \<noteq> i \<Longrightarrow> getElementById i (set_element e s) = getElementById i s"
  by (simp add: getElementById_def set_element_def find_map_other)

lemma get_set_same:
  "getElementById (el_id e) s \<noteq> None \<Longrightarrow> getElementById (el_id e) (set_element e s) = Some e"
  by (simp add: getElementById_def set_element_def find_map_same)

lemma get_append_other:
  "el_id e \<noteq> i \<Longrightarrow> getElementById i (appendChild k e s) = getElementById i s"
  by (simp add: getElementById_def appendChild_def find_filter_other)

lemma get_append_same:
  "getElementById (el_id e) (appendChild k e s) = Some (e\<lparr>parentPage := Some k\<rparr>)"
  by (simp add: getElementById_def appendChild_def find_filter_same)

lemma get_emit [simp]: "getElementById i (emit ev s) = getElementById i s"
  "getPageById k (emit ev s) = getPageById k s"
  by (simp_all add: getElementById_def getPageById_def emit_def)

lemma getPage_dom [simp]:
  "getPageById k (appendChild k' e s) = getPageById k s"
  "getPageById k (set_element e s) = getPageById k s"
  by (simp_all add: getPageById_def)

lemma el_id_apply_styles [simp]:
  "el_id (apply_styles pos e) = el_id e" "parentPage (apply_styles pos e) = parentPage e"
  by (simp_all add: apply_styles_def)

lemma getPage_no: "getPageById k s = Some p \<Longrightarrow> page_no p = k"
  by (auto simp: getPageById_def find_Some_iff)

lemma getElement_id: "getElementById i s = Some e \<Longrightarrow> el_id e = i"
  by (auto simp: getElementById_def find_Some_iff)

text \<open>The events of a state are kept by a step.\<close>

lemma trace_dom [simp]:
  "trace (appendChild k e s) = trace s" "trace (set_element e s) = trace s"
  "trace (emit ev s) = trace s @ [ev]"
  by (simp_all add: appendChild_def set_element_def emit_def)

lemma place_other:
  assumes "el_id e \<noteq> i"
  shows "getElementById i (place_element j pos e s) = getElementById i s"
  using assms
  by (simp add: place_element_def Let_def get_set_other get_append_other split: option.splits)

lemma place_frame:
  "heap (place_element j pos e s) = heap s" "itemPositions (place_element j pos e s) = itemPositions s"
  "pages (place_element j pos e s) = pages s"
  "set (trace s) \<subseteq> set (trace (place_element j pos e s))"
  by (auto simp: place_element_def Let_def split: option.splits)

lemma place_fallback:
  assumes "pageIndex pos = Some k" "getPageById k s = None" "getPageById 0 s = Some p0"
    and "getElementById (el_id e) s = Some e \<or> parentPage e \<noteq> Some 0"
  shows "getElementById (el_id e) (place_element i pos e s)
           = Some (apply_styles pos (e\<lparr>parentPage := Some 0\<rparr>))"
    and "Warn_target_page_missing i k \<in> set (trace (place_element i pos e s))"
proof -
  have p0: "page_no p0 = 0"
    using assms(3) by (rule getPage_no)
  let ?s0 = "emit (Warn_target_page_missing i k) s"
  let ?s1 = "if parentPage e \<noteq> Some 0 then appendChild 0 e ?s0 else ?s0"
  let ?e' = "apply_styles pos (e\<lparr>parentPage := Some 0\<rparr>)"
  have eq: "place_element i pos e s = set_element ?e' ?s1"
    using assms(1,2,3) by (simp add: place_element_def Let_def p0)
  have "getElementById (el_id e) ?s1 \<noteq> None"
    using assms(4) by (auto simp: get_append_same)
  then have "getElementById (el_id ?e') ?s1 \<noteq> None"
    by simp
  from get_set_same [OF this]
  show "getElementById (el_id e) (place_element i pos e s) = Some ?e'"
    by (simp add: eq)
  show "Warn_target_page_missing i k \<in> set (trace (place_element i pos e s))"
    by (simp add: eq)
qed

lemma apply_one_frame:
  "heap (apply_one fp j s) = heap s" "itemPositions (apply_one fp j s) = itemPositions s"
  "pages (apply_one fp j s) = pages s"
  "set (trace s) \<subseteq> set (trace (apply_one fp j s))"
  by (auto simp: apply_one_def Let_def place_frame split: option.splits
      dest: subsetD [OF place_frame(4)])

lemma apply_one_other:
  assumes "j \<noteq> i"
  shows "getElementById i (apply_one fp j s) = getElementById i s"
  using assms
  by (auto simp: apply_one_def Let_def place_other new_element_def split: option.splits
      dest: getElement_id)

lemma apply_rest:
  assumes "i \<notin> set ks"
  shows "getElementById i (fold (apply_one fp) ks s) = getElementById i s
       \<and> set (trace s) \<subseteq> set (trace (fold (apply_one fp) ks s))"
  using assms
proof (induction ks arbitrary: s)
  case Nil
  show ?case by simp
next
  case (Cons k ks)
  then have "getElementById i (fold (apply_one fp) ks (apply_one fp k s)) = getElementById i (apply_one fp k s)"
    "set (trace (apply_one fp k s)) \<subseteq> set (trace (fold (apply_one fp) ks (apply_one fp k s)))"
    by simp_all
  moreover have "getElementById i (apply_one fp k s) = getElementById i s"
    using Cons.prems by (intro apply_one_other) auto
  moreover note apply_one_frame(4) [of s fp k]
  ultimately show ?case
    by auto
qed

lemma place_no_other_warning:
  "j \<noteq> i \<Longrightarrow>
   filter (\<lambda>ev. ev = Warn_target_page_missing i k) (trace (place_element j pos e s))
     = filter (\<lambda>ev. ev = Warn_target_page_missing i k) (trace s)"
  by (simp add: place_element_def Let_def split: option.splits)

lemma apply_one_no_other_warning:
  "j \<noteq> i \<Longrightarrow>
   filter (\<lambda>ev. ev = Warn_target_page_missing i k) (trace (apply_one fp j s))
     = filter (\<lambda>ev. ev = Warn_target_page_missing i k) (trace s)"
  by (simp add: apply_one_def Let_def place_no_other_warning split: option.splits)

lemma apply_rest_warning:
  "i \<notin> set ks \<Longrightarrow>
   filter (\<lambda>ev. ev = Warn_target_page_missing i k) (trace (fold (apply_one fp) ks s))
     = filter (\<lambda>ev. ev = Warn_target_page_missing i k) (trace s)"
  by (induction ks arbitrary: s) (simp_all add: apply_one_no_other_warning [OF not_sym])

lemma element_available_cong:
  "getElementById i s' = getElementById i s \<Longrightarrow>
   element_available fp i pos s' = element_available fp i pos s"
  by (simp add: element_available_def)

lemma apply_one_self:
  assumes "map_of (itemPositions s) i = Some a" "pageIndex (heap s ! a) = Some k"
    "getPageById k s = None" "getPageById 0 s = Some p0"
  shows "if element_available fp i (heap s ! a) s
         then (\<exists>e'. getElementById i (apply_one fp i s) = Some e' \<and> parentPage e' = Some 0)
              \<and> Warn_target_page_missing i k \<in> set (trace (apply_one fp i s))
         else getElementById i (apply_one fp i s) = None
              \<and> filter (\<lambda>ev. ev = Warn_target_page_missing i k) (trace (apply_one fp i s))
                  = filter (\<lambda>ev. ev = Warn_target_page_missing i k) (trace s)"
proof -
  let ?pos = "heap s ! a"
  have pos: "getItemPosition i s = Some ?pos"
    using assms(1) by (simp add: getItemPosition_def)
  show ?thesis
  proof (cases "getElementById i s")
    case (Some e)
    have id: "el_id e = i"
      using Some by (rule getElement_id)
    have eq: "apply_one fp i s = place_element i ?pos e s"
      using pos Some by (simp add: apply_one_def)
    have g: "getElementById (el_id e) s = Some e \<or> parentPage e \<noteq> Some 0"
      using Some id by simp
    from place_fallback [OF assms(2,3,4) g, of i] show ?thesis
      using Some by (simp add: eq id element_available_def)
  next
    case None
    show ?thesis
    proof (cases "truthy (parser ?pos) \<and> truthy (filepath ?pos)
                  \<and> fp (the (parser ?pos)) (the (filepath ?pos))")
      case True
      define e where "e = new_element i
          (if last_segment (the (filepath ?pos)) = [] then i else last_segment (the (filepath ?pos)))
          (the (parser ?pos))"
      have id: "el_id e = i" and par: "parentPage e = None"
        by (simp_all add: e_def new_element_def)
      have eq: "apply_one fp i s = place_element i ?pos e s"
        using pos None True by (simp add: apply_one_def Let_def e_def)
      have g: "getElementById (el_id e) s = Some e \<or> parentPage e \<noteq> Some 0"
        using par by simp
      from place_fallback [OF assms(2,3,4) g, of i] show ?thesis
        using None True by (simp add: eq id element_available_def)
    next
      case False
      then show ?thesis
        using pos None
        by (auto simp: apply_one_def element_available_def)
    qed
  qed
qed

lemma apply_fold_self:
  assumes "distinct ks" "i \<in> set ks"
    "map_of (itemPositions s) i = Some a" "pageIndex (heap s ! a) = Some k"
    "getPageById k s = None" "getPageById 0 s = Some p0"
  shows "if element_available fp i (heap s ! a) s
         then (\<exists>e'. getElementById i (fold (apply_one fp) ks s) = Some e' \<and> parentPage e' = Some 0)
              \<and> Warn_target_page_missing i k \<in> set (trace (fold (apply_one fp) ks s))
         else getElementById i (fold (apply_one fp) ks s) = None
              \<and> filter (\<lambda>ev. ev = Warn_target_page_missing i k) (trace (fold (apply_one fp) ks s))
                  = filter (\<lambda>ev. ev = Warn_target_page_missing i k) (trace s)"
  using assms
proof (induction ks arbitrary: s)
  case Nil
  then show ?case by simp
next
  case (Cons j ks)
  show ?case
  proof (cases "j = i")
    case True
    then have rest: "i \<notin> set ks"
      using Cons.prems(1) by simp
    note one = apply_one_self [OF Cons.prems(3,4,5,6), of fp]
    note r1 = apply_rest [OF rest, of fp "apply_one fp i s"]
    note r2 = apply_rest_warning [OF rest, of k fp "apply_one fp i s"]
    show ?thesis
    proof (cases "element_available fp i (heap s ! a) s")
      case av: True
      with one obtain e' where "getElementById i (apply_one fp i s) = Some e'" "parentPage e' = Some 0"
        "Warn_target_page_missing i k \<in> set (trace (apply_one fp i s))"
        by auto
      with r1 show ?thesis
        using True av by auto
    next
      case av: False
      with one have "getElementById i (apply_one fp i s) = None"
        "filter (\<lambda>ev. ev = Warn_target_page_missing i k) (trace (apply_one fp i s))
           = filter (\<lambda>ev. ev = Warn_target_page_missing i k) (trace s)"
        by simp_all
      with r1 r2 show ?thesis
        using True av by simp
    qed
  next
    case False
    let ?s1 = "apply_one fp j s"
    have pre: "distinct ks" "i \<in> set ks"
      "map_of (itemPositions ?s1) i = Some a" "pageIndex (heap ?s1 ! a) = Some k"
      "getPageById k ?s1 = None" "getPageById 0 ?s1 = Some p0"
      using Cons.prems False
      by (simp_all add: apply_one_frame getPageById_def)
    have same: "getElementById i ?s1 = getElementById i s"
      using False by (rule apply_one_other)
    have av: "element_available fp i (heap ?s1 ! a) ?s1 = element_available fp i (heap s ! a) s"
      using element_available_cong [OF same] by (simp add: apply_one_frame)
    have w: "filter (\<lambda>ev. ev = Warn_target_page_missing i k) (trace ?s1)
             = filter (\<lambda>ev. ev = Warn_target_page_missing i k) (trace s)"
      using False by (rule apply_one_no_other_warning)
    from Cons.IH [OF pre] show ?thesis
      unfolding av w by simp
  qed
qed

section \<open>Records that name a missing page\<close>

text \<open>
  Claim C2, as the code has it. Let the live mapping have distinct ids and a record for
  \<open>i\<close> whose \<^verbatim>\<open>pageIndex\<close> is \<open>k\<close>, let no page container \<^verbatim>\<open>page-k\<close> exist and let \<^verbatim>\<open>page-0\<close>
  exist. If the item has an element to place (one is on the page, or the record names a
  parser and a file path and the file is fetched and parsed, so that the element is
  created), then after \<^verbatim>\<open>applyPositions\<close> the element is a child of page 0 and the warning
  for \<open>i\<close> and \<open>k\<close> has been emitted, however large \<open>k\<close> is. If it has none, it has none
  afterwards either and no warning for \<open>i\<close> and \<open>k\<close> is added. The first theorem proves
  this; the last shows an index beyond the pages sent to page 0 and not to the last
  page, against the claim as stated.
\<close>
theorem missing_page_falls_back_to_page_0:
  assumes "distinct (map fst (itemPositions s))"
    and "map_of (itemPositions s) i = Some a" and "pageIndex (heap s ! a) = Some k"
    and "getPageById k s = None" and "getPageById 0 s = Some p0"
  shows "if element_available fp i (heap s ! a) s
         then (\<exists>e'. getElementById i (applyPositions fp s) = Some e' \<and> parentPage e' = Some 0)
              \<and> Warn_target_page_missing i k \<in> set (trace (applyPositions fp s))
         else getElementById i (applyPositions fp s) = None
              \<and> filter (\<lambda>ev. ev = Warn_target_page_missing i k) (trace (applyPositions fp s))
                  = filter (\<lambda>ev. ev = Warn_target_page_missing i k) (trace s)"
proof -
  have "i \<in> set (map fst (itemPositions s))"
    using assms(2) by (metis map_of_eq_None_iff option.distinct(1) set_map)
  from apply_fold_self [OF assms(1) this assms(2,3,4,5), of fp]
  show ?thesis
    by (simp add: applyPositions_def)
qed

theorem missing_page_falls_back_to_page_0_witness:
  "(distinct (map fst (itemPositions far_page))
    \<and> map_of (itemPositions far_page) ''x'' = Some 0 \<and> pageIndex (heap far_page ! 0) = Some 5
    \<and> getPageById 5 far_page = None \<and> getPageById 0 far_page = Some page_zero
    \<and> element_available no_parse ''x'' (heap far_page ! 0) far_page
    \<and> (\<exists>e'. getElementById ''x'' (applyPositions no_parse far_page) = Some e' \<and> parentPage e' = Some 0)
    \<and> Warn_target_page_missing ''x'' 5 \<in> set (trace (applyPositions no_parse far_page)))
   \<and> (distinct (map fst (itemPositions far_page_unbuilt))
    \<and> map_of (itemPositions far_page_unbuilt) ''x'' = Some 0
    \<and> pageIndex (heap far_page_unbuilt ! 0) = Some 5
    \<and> getPageById 5 far_page_unbuilt = None \<and> getPageById 0 far_page_unbuilt = Some page_zero
    \<and> element_available yes_parse ''x'' (heap far_page_unbuilt ! 0) far_page_unbuilt
    \<and> (\<exists>e'. getElementById ''x'' (applyPositions yes_parse far_page_unbuilt) = Some e'
           \<and> parentPage e' = Some 0)
    \<and> Warn_target_page_missing ''x'' 5 \<in> set (trace (applyPositions yes_parse far_page_unbuilt))
    \<and> \<not> element_available no_parse ''x'' (heap far_page_unbuilt ! 0) far_page_unbuilt
    \<and> getElementById ''x'' (applyPositions no_parse far_page_unbuilt) = None)"
proof -
  have h: "distinct (map fst (itemPositions far_page))"
    "map_of (itemPositions far_page) ''x'' = Some 0" "pageIndex (heap far_page ! 0) = Some 5"
    "getPageById 5 far_page = None" "getPageById 0 far_page = Some page_zero"
    by (simp_all add: far_page_def initial_state_def getPageById_def
        page_zero_def page_one_def default_position_def empty_item_def)
  have a: "element_available no_parse ''x'' (heap far_page ! 0) far_page"
    by (simp add: element_available_def far_page_def initial_state_def getElementById_def
        new_element_def)
  have h': "distinct (map fst (itemPositions far_page_unbuilt))"
    "map_of (itemPositions far_page_unbuilt) ''x'' = Some 0"
    "pageIndex (heap far_page_unbuilt ! 0) = Some 5"
    "getPageById 5 far_page_unbuilt = None" "getPageById 0 far_page_unbuilt = Some page_zero"
    by (simp_all add: far_page_unbuilt_def initial_state_def getPageById_def
        page_zero_def page_one_def default_position_def empty_item_def)
  have a': "element_available yes_parse ''x'' (heap far_page_unbuilt ! 0) far_page_unbuilt"
    "\<not> element_available no_parse ''x'' (heap far_page_unbuilt ! 0) far_page_unbuilt"
    by (simp_all add: element_available_def far_page_unbuilt_def initial_state_def
        getElementById_def default_position_def empty_item_def truthy_def falsy_def
        yes_parse_def no_parse_def)
  from missing_page_falls_back_to_page_0 [OF h, of no_parse]
    missing_page_falls_back_to_page_0 [OF h', of yes_parse]
    missing_page_falls_back_to_page_0 [OF h', of no_parse]
  show ?thesis
    using h a h' a' by simp
qed

text \<open>
  With pages 0 and 1, the item whose record names page 5 leaves page 1 for page 0.
\<close>

theorem highest_page_not_used:
  "map_option parentPage (getElementById ''x'' (applyPositions no_parse far_page)) = Some (Some 0)
   \<and> trace (applyPositions no_parse far_page) = [Warn_target_page_missing ''x'' 5]"
  by (simp add: applyPositions_def apply_one_def place_element_def far_page_def initial_state_def
      getItemPosition_def getElementById_def getPageById_def page_zero_def page_one_def
      new_element_def default_position_def empty_item_def emit_def appendChild_def
      set_element_def apply_styles_def Let_def)

section \<open>Lemmas: a wheel tick\<close>

lemma update_items [simp]: "items (updateItemPosition i pd s) = items s"
  by (simp add: updateItemPosition_eq split: option.splits)

lemma getElementById_items: "items s' = items s \<Longrightarrow> getElementById i s' = getElementById i s"
  by (simp add: getElementById_def)

lemma wheel_opacity_tick:
  assumes "wheel_target ev = Some i" "i \<noteq> []" "getElementById i s = Some e" "shiftKey ev"
  shows "\<exists>r. getItemPosition i (handleWheelTransform pf st ev s) = Some r
           \<and> opacity r = (if next_opacity ev (style_opacity e) < 1
                           then Some (next_opacity ev (style_opacity e)) else None)"
    and "getElementById i (handleWheelTransform pf st ev s)
           = Some (e\<lparr>style_opacity := (if next_opacity ev (style_opacity e) < 1
                                         then Some (next_opacity ev (style_opacity e)) else None)\<rparr>)"
proof -
  let ?v = "next_opacity ev (style_opacity e)"
  let ?e' = "e\<lparr>style_opacity := (if ?v < 1 then Some ?v else None)\<rparr>"
  define s1 where "s1 = (case getItemPosition i s of
       None \<Rightarrow> updateItemPosition i
                 (no_props\<lparr>p_left := Value (or_0px (style_left e)),
                            p_top := Value (or_0px (style_top e)),
                            p_pageIndex := Value (case parentPage e of Some k \<Rightarrow> k | None \<Rightarrow> 0)\<rparr>) s
     | Some _ \<Rightarrow> s)"
  define pd where "pd = no_props\<lparr>p_opacity := (if ?v < 1 then Value ?v else Undefined),
       p_left := Value (style_left e), p_top := Value (style_top e),
       p_pageIndex := Value (case parentPage e of Some k \<Rightarrow> k | None \<Rightarrow> 0)\<rparr>"
  have eq: "handleWheelTransform pf st ev s
            = updateAndSavePositions (updateItemPosition i pd (set_element ?e' s1))"
    using assms
    by (simp add: handleWheelTransform_def Let_def next_opacity_def s1_def pd_def)
  have id: "el_id e = i"
    using assms(3) by (rule getElement_id)
  have it: "items s1 = items s"
    by (simp add: s1_def split: option.splits)
  have "getElementById (el_id ?e') s1 \<noteq> None"
    using assms(3) id getElementById_items [OF it, of i] by simp
  from get_set_same [OF this]
  have g: "getElementById i (set_element ?e' s1) = Some ?e'"
    using id by simp
  show "getElementById i (handleWheelTransform pf st ev s) = Some ?e'"
    unfolding eq using g
    by (simp add: getElementById_def updateAndSave_items)
  have "opacity (cleanup (spread r pd)) = (if ?v < 1 then Some ?v else None)" for r
    by (simp add: cleanup_fields spread_def pd_def no_props_def)
  then show "\<exists>r. getItemPosition i (handleWheelTransform pf st ev s) = Some r
           \<and> opacity r = (if ?v < 1 then Some ?v else None)"
    unfolding eq by (simp add: getItemPosition_update_save)
qed

lemma next_opacity_range: "0 \<le> next_opacity ev style" "next_opacity ev style \<le> 1"
  by (simp_all add: next_opacity_def)

lemma fresh_item_element: "getElementById ''a'' fresh_item = Some element_a"
  by (simp add: fresh_item_def initial_state_def getElementById_def element_a_def new_element_def)

lemma ticks_down:
  "n \<le> 20 \<Longrightarrow>
   getElementById ''a'' ((handleWheelTransform pf st tick_down ^^ n) fresh_item)
     = Some (element_a\<lparr>style_opacity := (if n = 0 then None else Some (1 - real n / 20))\<rparr>)
   \<and> (0 < n \<longrightarrow> (\<exists>r. getItemPosition ''a'' ((handleWheelTransform pf st tick_down ^^ n) fresh_item) = Some r
                   \<and> opacity r = Some (1 - real n / 20)))"
proof (induction n)
  case 0
  show ?case
    by (simp add: fresh_item_element) (simp add: element_a_def new_element_def)
next
  case (Suc n)
  let ?s = "(handleWheelTransform pf st tick_down ^^ n) fresh_item"
  let ?e = "element_a\<lparr>style_opacity := (if n = 0 then None else Some (1 - real n / 20))\<rparr>"
  have e: "getElementById ''a'' ?s = Some ?e"
    using Suc by simp
  have h: "wheel_target tick_down = Some ''a''" "''a'' \<noteq> []" "shiftKey tick_down"
    by (simp_all add: tick_down_def)
  have v: "next_opacity tick_down (style_opacity ?e) = 1 - real (Suc n) / 20"
    using Suc.prems by (simp add: next_opacity_def tick_down_def field_simps)
  have lt: "1 - real (Suc n) / 20 < 1"
    by simp
  from wheel_opacity_tick [OF h(1,2) e h(3), of pf st]
  show ?case
    unfolding v using lt by simp
qed

section \<open>Lemmas: what every gesture keeps\<close>

lemma range_cong:
  "heap s' = heap s \<Longrightarrow> itemPositions s' = itemPositions s \<Longrightarrow>
   positionHistory s' = positionHistory s \<Longrightarrow> historyIndex s' = historyIndex s \<Longrightarrow>
   state_ok s' = state_ok s"
  by (simp add: state_ok_def wf_def history_ok_def opacities_in_range_def store_def snapshots_def)

lemma index_dom [simp]:
  "historyIndex (emit e s) = historyIndex s" "historyIndex (appendChild k el s) = historyIndex s"
  "historyIndex (set_element el s) = historyIndex s"
  by (simp_all add: emit_def appendChild_def set_element_def)

lemma ok_dom [simp]:
  "state_ok (emit e s) = state_ok s" "state_ok (appendChild k el s) = state_ok s"
  "state_ok (set_element el s) = state_ok s"
  "state_ok (s\<lparr>items := its\<rparr>) = state_ok s"
  "state_ok (s\<lparr>selectedElementId := sel\<rparr>) = state_ok s"
  by (rule range_cong; simp)+

lemma in_range_default: "in_range default_position"
  by (simp add: in_range_def default_position_def empty_item_def)

lemma in_range_cleanup_spread:
  "in_range old \<Longrightarrow> opacity_ok (p_opacity pd) \<Longrightarrow> in_range (cleanup (spread old pd))"
  by (cases "p_opacity pd")
     (auto simp: in_range_def opacity_ok_def cleanup_fields spread_def split: option.splits)

lemma store_member:
  "map_of (itemPositions s) i = Some a \<Longrightarrow> (i, heap s ! a) \<in> set (store s)"
  by (force simp: store_def JSON_stringify_def dest: map_of_SomeD)

lemma ok_get:
  assumes "state_ok s" "getItemPosition i s = Some r"
  shows "in_range r"
proof -
  from assms(2) obtain a where a: "map_of (itemPositions s) i = Some a" "r = heap s ! a"
    by (auto simp: getItemPosition_def)
  from store_member [OF a(1)] assms(1) show ?thesis
    by (auto simp: a(2) state_ok_def opacities_in_range_def list_all_iff)
qed

lemma store_update_range:
  assumes "wf s" "list_all (\<lambda>(i, r). in_range r) (store s)" "opacity_ok (p_opacity pd)"
  shows "list_all (\<lambda>(i, r). in_range r) (store (updateItemPosition i pd s))"
proof -
  have old: "in_range (heap s ! a)" if "(k, a) \<in> set (itemPositions s)" for k a
    using assms(2) that by (force simp: store_def JSON_stringify_def list_all_iff)
  have valid: "a < length (heap s)" if "(k, a) \<in> set (itemPositions s)" for k a
    using assms(1) that by (auto simp: wf_def wf_map_def list_all_iff)
  show ?thesis
  proof (cases "map_of (itemPositions s) i")
    case None
    have new: "in_range (cleanup (spread default_position pd))"
      using in_range_default assms(3) by (rule in_range_cleanup_spread)
    show ?thesis
      using None new old valid
      by (auto simp: updateItemPosition_eq store_def JSON_stringify_def list_all_iff nth_append
          dest!: update_set)
  next
    case (Some a)
    then have "(i, a) \<in> set (itemPositions s)"
      by (rule map_of_SomeD)
    then have "in_range (heap s ! a)"
      by (rule old)
    then have new: "in_range (cleanup (spread (heap s ! a) pd))"
      using assms(3) by (rule in_range_cleanup_spread)
    show ?thesis
      using Some new old valid
      by (auto simp: updateItemPosition_eq store_def JSON_stringify_def list_all_iff nth_append
          dest!: update_set)
  qed
qed

lemma ok_update:
  assumes "state_ok s" "opacity_ok (p_opacity pd)"
  shows "state_ok (updateItemPosition i pd s)"
proof -
  have w: "wf s" and h: "history_ok s" and r: "opacities_in_range s"
    using assms(1) by (simp_all add: state_ok_def)
  have "snapshots (updateItemPosition i pd s) = snapshots s"
    using mutate_snapshots [OF w, of "Upsert i pd"] by simp
  moreover have "history_ok (updateItemPosition i pd s)"
    using mutate_history_ok [of "Upsert i pd" s] h by simp
  moreover have "wf (updateItemPosition i pd s)"
    using w by (rule update_wf)
  moreover have "list_all (\<lambda>(i, r). in_range r) (store (updateItemPosition i pd s))"
    using w r assms(2) by (intro store_update_range) (simp_all add: opacities_in_range_def)
  ultimately show ?thesis
    using r by (simp add: state_ok_def opacities_in_range_def)
qed

lemma ok_delete: "state_ok s \<Longrightarrow> state_ok (deleteItemPosition i s)"
proof -
  assume ok: "state_ok s"
  then have w: "wf s" by (simp add: state_ok_def)
  have "wf (deleteItemPosition i s)"
    using mutate_wf [OF w, of "Remove i"] by simp
  moreover have "list_all (\<lambda>(i, r). in_range r) (store (deleteItemPosition i s))"
    using ok by (auto simp: state_ok_def opacities_in_range_def store_def JSON_stringify_def
        deleteItemPosition_def list_all_iff AList.delete_eq)
  moreover have "snapshots (deleteItemPosition i s) = snapshots s"
    "history_ok (deleteItemPosition i s) = history_ok s"
    by (simp_all add: snapshots_def deleteItemPosition_def history_ok_def)
  ultimately show ?thesis
    using ok by (simp add: state_ok_def opacities_in_range_def)
qed

lemma ok_clear: "state_ok s \<Longrightarrow> state_ok (clearItemPositions s)"
  by (simp add: state_ok_def clearItemPositions_eq wf_def wf_map_Nil history_ok_def
      opacities_in_range_def store_def snapshots_def JSON_stringify_def)

lemma ok_add: "state_ok s \<Longrightarrow> state_ok (addStateToHistory s)"
proof -
  assume ok: "state_ok s"
  then have w: "wf s" and h: "history_ok s" and r: "opacities_in_range s"
    by (simp_all add: state_ok_def)
  have sn: "list_all (list_all (\<lambda>(i, r). in_range r)) (snapshots s)"
    using r by (simp add: opacities_in_range_def)
  then have "list_all (list_all (\<lambda>(i, r). in_range r)) (tl (snapshots s))"
    by (cases "snapshots s") auto
  moreover have "list_all (list_all (\<lambda>(i, r). in_range r)) (take n (snapshots s))" for n
    using sn by (auto simp: list_all_iff dest: in_set_takeD)
  ultimately have "list_all (list_all (\<lambda>(i, r). in_range r)) (snapshots (addStateToHistory s))"
    using r by (simp add: add_snapshots [OF w h] opacities_in_range_def)
  then show ?thesis
    using w h r by (simp add: state_ok_def add_wf add_history_ok add_store opacities_in_range_def)
qed

lemma save_wf: "wf s \<Longrightarrow> wf (savePositions s)"
  by (auto simp: savePositions_eq wf_def list_all_iff intro: wf_map_append)

lemma ok_save: "state_ok s \<Longrightarrow> state_ok (savePositions s)"
proof -
  assume ok: "state_ok s"
  then have w: "wf s" by (simp add: state_ok_def)
  from savePositions_frame [OF w] save_wf [OF w] ok show ?thesis
    by (simp add: state_ok_def history_ok_def opacities_in_range_def)
qed

lemma ok_updateAndSave: "state_ok s \<Longrightarrow> state_ok (updateAndSavePositions s)"
  by (simp add: updateAndSavePositions_def ok_add ok_save)

lemma opacity_ok_simps [simp]:
  "opacity_ok Absent" "opacity_ok Undefined" "opacity_ok (Value v) = (0 \<le> v)"
  by (simp_all add: opacity_ok_def)

lemma opacity_ok_own:
  "state_ok s \<Longrightarrow> opacity_ok (own (Option.bind (getItemPosition i s) opacity))"
proof (cases "getItemPosition i s")
  case None
  then show ?thesis by (simp add: own_def)
next
  case (Some r)
  assume "state_ok s"
  from ok_get [OF this Some] show ?thesis
    using Some by (auto simp: own_def in_range_def split: option.splits)
qed

lemma ok_wheel:
  assumes "state_ok s"
  shows "state_ok (handleWheelTransform pf st ev s)"
proof (cases "wheel_target ev")
  case None
  then show ?thesis using assms by (simp add: handleWheelTransform_def)
next
  case (Some i)
  show ?thesis
  proof (cases "i = [] \<or> getElementById i s = None")
    case True
    then show ?thesis
      using assms Some by (auto simp: handleWheelTransform_def)
  next
    case False
    then obtain e where e: "getElementById i s = Some e" and i: "i \<noteq> []"
      by auto
    define s1 where "s1 = (case getItemPosition i s of
         None \<Rightarrow> updateItemPosition i
                   (no_props\<lparr>p_left := Value (or_0px (style_left e)),
                              p_top := Value (or_0px (style_top e)),
                              p_pageIndex := Value (case parentPage e of Some k \<Rightarrow> k | None \<Rightarrow> 0)\<rparr>) s
       | Some _ \<Rightarrow> s)"
    have ok1: "state_ok s1"
      using assms by (simp add: s1_def no_props_def ok_update split: option.splits)
    have step: "state_ok (updateAndSavePositions (updateItemPosition i pd (set_element e' s1)))"
      if "opacity_ok (p_opacity pd)" for pd e'
      using ok1 that by (intro ok_updateAndSave ok_update) simp_all
    show ?thesis
      using Some i e ok1
      by (simp add: handleWheelTransform_def Let_def s1_def [symmetric] step no_props_def)
  qed
qed

lemma ok_drop:
  assumes "state_ok s"
  shows "state_ok (handleDrop ev s)"
proof -
  have step: "state_ok (updateAndSavePositions (updateItemPosition i pd t))"
    if "state_ok t" "opacity_ok (p_opacity pd)" for i pd t
    using that by (intro ok_updateAndSave ok_update)
  show ?thesis
    using assms
    by (auto simp: handleDrop_def Let_def no_props_def opacity_ok_own intro!: step
        split: option.splits)
qed

lemma ok_key:
  assumes "state_ok s"
  shows "state_ok (handleKeyDown ev s)"
  using assms
  by (auto simp: handleKeyDown_def Let_def intro!: ok_save ok_delete split: option.splits)

lemma ok_file_drop:
  assumes "state_ok s"
  shows "state_ok (addNewItemToPage parsed now chain filename filePath x y s)"
proof -
  have step: "state_ok (updateAndSavePositions (updateItemPosition i pd t))"
    if "state_ok t" "opacity_ok (p_opacity pd)" for i pd t
    using that by (intro ok_updateAndSave ok_update)
  show ?thesis
    using assms
    by (auto simp: addNewItemToPage_def Let_def no_props_def intro!: step
        split: option.splits prod.splits)
qed

lemma place_history:
  "positionHistory (place_element j pos e s) = positionHistory s"
  "historyIndex (place_element j pos e s) = historyIndex s"
  by (auto simp: place_element_def Let_def split: option.splits)

lemma apply_one_history:
  "positionHistory (apply_one fp j s) = positionHistory s"
  "historyIndex (apply_one fp j s) = historyIndex s"
  by (auto simp: apply_one_def Let_def place_history split: option.splits)

lemma ok_apply_one: "state_ok (apply_one fp j s) = state_ok s"
  by (rule range_cong) (simp_all add: apply_one_frame apply_one_history)

lemma ok_apply_fold: "state_ok (fold (apply_one fp) ks s) = state_ok s"
  by (induction ks arbitrary: s) (simp_all add: ok_apply_one)

lemma ok_applyPositions: "state_ok (applyPositions fp s) = state_ok s"
  by (simp add: applyPositions_def ok_apply_fold)

lemma ok_initializeHistory:
  assumes "state_ok s"
  shows "state_ok (initializeHistory (itemPositions s) s)"
proof -
  have w: "wf s" using assms by (simp add: state_ok_def)
  show ?thesis
    using assms by (simp add: state_ok_def initializeHistory_props [OF w] opacities_in_range_def)
qed

lemma ok_undo:
  assumes "state_ok s"
  shows "state_ok (snd (undoHistory s))"
proof (cases "0 < historyIndex s")
  case False
  then show ?thesis using assms by (simp add: undo_None)
next
  case True
  have w: "wf s" and h: "history_ok s" and r: "opacities_in_range s"
    using assms by (simp_all add: state_ok_def)
  have lt: "historyIndex s < int (length (positionHistory s))"
    using h by (simp add: history_ok_def)
  from undo_step [OF w True lt] obtain r' s' where s':
    "undoHistory s = (Inr (Some r'), s')" "wf s'"
    "store s' = snapshots s ! nat (historyIndex s - 1)" "snapshots s' = snapshots s"
    "historyIndex s' = historyIndex s - 1" "length (positionHistory s') = length (positionHistory s)"
    by blast
  have "nat (historyIndex s - 1) < length (snapshots s)"
    using True lt by (simp add: snapshots_length)
  then have "snapshots s ! nat (historyIndex s - 1) \<in> set (snapshots s)"
    by (rule nth_mem)
  then have "list_all (\<lambda>(i, r). in_range r) (store s')"
    using r by (simp add: s'(3) opacities_in_range_def list_all_iff)
  then show ?thesis
    using s' r h True by (simp add: state_ok_def opacities_in_range_def history_ok_def)
qed

lemma ok_redo:
  assumes "state_ok s"
  shows "state_ok (snd (redoHistory s))"
proof (cases "historyIndex s < int (length (positionHistory s)) - 1")
  case False
  then show ?thesis using assms by (simp add: redo_None)
next
  case True
  have w: "wf s" and h: "history_ok s" and r: "opacities_in_range s"
    using assms by (simp_all add: state_ok_def)
  have ge: "- 1 \<le> historyIndex s"
    using h by (simp add: history_ok_def)
  from redo_step [OF w ge True] obtain r' s' where s':
    "redoHistory s = (Inr (Some r'), s')" "wf s'"
    "store s' = snapshots s ! nat (historyIndex s + 1)" "snapshots s' = snapshots s"
    "historyIndex s' = historyIndex s + 1" "length (positionHistory s') = length (positionHistory s)"
    by blast
  have "nat (historyIndex s + 1) < length (snapshots s)"
    using True ge by (simp add: snapshots_length)
  then have "snapshots s ! nat (historyIndex s + 1) \<in> set (snapshots s)"
    by (rule nth_mem)
  then have "list_all (\<lambda>(i, r). in_range r) (store s')"
    using r by (simp add: s'(3) opacities_in_range_def list_all_iff)
  then show ?thesis
    using s' r h True ge by (simp add: state_ok_def opacities_in_range_def history_ok_def)
qed

lemma ok_shortcut:
  assumes "state_ok s"
  shows "state_ok (snd (handleUndoRedoKeys fp ev s))"
  using ok_undo [OF assms] ok_redo [OF assms] assms
  by (auto simp: handleUndoRedoKeys_def ok_save ok_applyPositions
      split: prod.splits sum.splits option.splits)

lemma ok_assign:
  assumes "state_ok s" "in_range r"
  shows "state_ok (assign_item i (length (heap s)) (s\<lparr>heap := heap s @ [r]\<rparr>))"
proof -
  let ?t = "assign_item i (length (heap s)) (s\<lparr>heap := heap s @ [r]\<rparr>)"
  have w: "wf s" and h: "history_ok s" and rg: "opacities_in_range s"
    using assms(1) by (simp_all add: state_ok_def)
  have old: "in_range (heap s ! a)" if "(k, a) \<in> set (itemPositions s)" for k a
    using rg that by (force simp: opacities_in_range_def store_def JSON_stringify_def list_all_iff)
  have valid: "a < length (heap s)" if "(k, a) \<in> set (itemPositions s)" for k a
    using w that by (auto simp: wf_def wf_map_def list_all_iff)
  have "wf_map (heap s @ [r]) (itemPositions s)"
    using w by (auto simp: wf_def intro: wf_map_append)
  then have "wf_map (heap s @ [r]) (AList.update i (length (heap s)) (itemPositions s))"
    by (intro wf_map_update) simp_all
  then have "wf ?t"
    using w by (auto simp: wf_def assign_item_def list_all_iff intro: wf_map_append)
  moreover have "history_ok ?t"
    using h by (simp add: history_ok_def assign_item_def)
  moreover have "snapshots ?t = snapshots s"
    using w by (simp add: snapshots_def assign_item_def wf_def snapshots_append_heap)
  moreover have "list_all (\<lambda>(i, r). in_range r) (store ?t)"
    using old valid assms(2)
    by (auto simp: store_def JSON_stringify_def assign_item_def list_all_iff nth_append
        dest!: update_set)
  ultimately show ?thesis
    using rg by (simp add: state_ok_def opacities_in_range_def)
qed

lemma ok_populate:
  assumes "state_ok s" "list_all entry_in_range es"
  shows "state_ok (snd (populate rnd n es s))"
  using assms
proof (induction rnd n es s rule: populate.induct)
  case (1 rnd n s)
  then show ?case by simp
next
  case (2 rnd n es s)
  then show ?case by simp
next
  case (3 rnd n itemData es s)
  then show ?case
    by (simp add: alloc_def Let_def entry_in_range_def ok_assign)
qed

lemma ok_fit_item: "state_ok (snd (fit_item W H cw i eh c s)) = state_ok s"
  using fit_item_state [of W H cw i eh c s] by auto

lemma ok_default_item:
  assumes "state_ok s"
  shows "state_ok (snd (default_item W H cw el (c, s)))"
  using assms
  by (auto simp: default_item_def Let_def split_def ok_fit_item no_props_def intro!: ok_update
      split: option.splits)

lemma ok_default_fold:
  assumes "state_ok s"
  shows "state_ok (snd (fold (default_item W H cw) els (c, s)))"
  using assms
proof (induction els arbitrary: c s)
  case Nil
  then show ?case by simp
next
  case (Cons el els)
  obtain c1 s1 where cs: "default_item W H cw el (c, s) = (c1, s1)"
    by (cases "default_item W H cw el (c, s)")
  from ok_default_item [OF Cons.prems, of W H cw el c] cs have "state_ok s1"
    by simp
  from Cons.IH [OF this, of c1] show ?case
    using cs by simp
qed

lemma ok_initializeDefaultPositions:
  assumes "state_ok s"
  shows "state_ok (initializeDefaultPositions s)"
  using assms
  by (auto simp: initializeDefaultPositions_def Let_def split_def
      intro!: ok_initializeHistory ok_default_fold)

lemma ok_load:
  assumes "state_ok s" "gesture_in_range (Load resp)"
  shows "state_ok (loadPositions rnd fp resp s)"
proof -
  have fb: "state_ok (initializeDefaultPositions (emit Error_loading_positions t))"
    if "state_ok t" for t
    using that by (intro ok_initializeDefaultPositions) simp
  have ld: "state_ok (case populate rnd 0 es (clearItemPositions s) of
                        (Some err, s1) \<Rightarrow> initializeDefaultPositions (emit Error_loading_positions s1)
                      | (None, s1) \<Rightarrow>
                          (let s2 = applyPositions fp s1 in initializeHistory (itemPositions s2) s2))"
    if "list_all entry_in_range es" for es
  proof -
    have "state_ok (snd (populate rnd 0 es (clearItemPositions s)))"
      using assms(1) that by (intro ok_populate ok_clear)
    then show ?thesis
      by (auto simp: Let_def ok_applyPositions intro!: fb ok_initializeHistory
          split: prod.splits option.splits)
  qed
  show ?thesis
    using assms ld [of "[]"] ld
    by (auto simp: loadPositions_def Let_def gesture_in_range_def
        intro!: fb ok_initializeDefaultPositions ok_clear
        split: response.splits json_body.splits)
qed

lemma ok_perform:
  assumes "state_ok s" "gesture_in_range g"
  shows "state_ok (perform rnd fp pf st g s)"
  using assms
  by (cases g) (simp_all add: ok_wheel ok_drop ok_key ok_file_drop ok_shortcut ok_load)

lemma ok_fold:
  assumes "state_ok s" "list_all gesture_in_range gs"
  shows "state_ok (fold (perform rnd fp pf st) gs s)"
  using assms
  by (induction gs arbitrary: s) (simp_all add: ok_perform)

text \<open>
  The condition on loads cannot be dropped: a load stores the opacity the file holds.
\<close>

lemma load_stores_opacity_as_it_is:
  "Option.bind (getItemPosition ''x''
      (loadPositions no_suffix no_parse bright_file (initial_state [page_zero] []))) opacity = Some 5"
proof -
  let ?r = "default_position\<lparr>id_key := Some ''x'', opacity := Some 5\<rparr>"
  let ?s0 = "initial_state [page_zero] []"
  let ?s1 = "assign_item ''x'' 0 (?s0\<lparr>heap := [?r]\<rparr>)"
  have p: "populate no_suffix 0 [Entry ?r] (clearItemPositions ?s0) = (None, ?s1)"
    by (simp add: clearItemPositions_eq alloc_def initial_state_def default_position_def
        empty_item_def falsy_def truthy_def assign_item_def)
  define t where "t = applyPositions no_parse ?s1"
  have a: "heap t = [?r]" "itemPositions t = [(''x'', 0)]"
    by (simp_all add: t_def applyPositions_def apply_one_frame assign_item_def initial_state_def)
  have "loadPositions no_suffix no_parse bright_file ?s0 = initializeHistory (itemPositions t) t"
    by (simp add: loadPositions_def bright_file_def ok_def p Let_def t_def del: populate.simps)
  then have "getItemPosition ''x'' (loadPositions no_suffix no_parse bright_file ?s0) = Some ?r"
    unfolding initializeHistory_eq by (simp add: getItemPosition_def a)
  then show ?thesis
    by simp
qed

section \<open>The range of a stored opacity\<close>

text \<open>
  Claim C4, as the code has it. Start from a well-formed state whose stored opacities,
  in the live mapping and in every snapshot of the history, are at least 0 and below 1
  (the state of the module when it is loaded is one). After any sequence of gestures
  (wheel ticks with any modifier over any target, drops of items, key presses, dropped
  files, undo and redo shortcuts, and loads whose response carries only opacities of that
  range) the same holds again of every record of the mapping and of the history, and so
  for every id a stored opacity \<open>v\<close> has \<open>0 \<le> v < 1\<close>: the wheel handler clamps to the
  closed interval from 0 to 1, an upsert removes every value of 1 or more, and 0 is
  stored. The first theorem proves this; \<open>opacity_reaches_zero\<close> shows the 0 stored after
  twenty-one ticks down from a fully opaque new item, against the claim as stated.
\<close>
theorem stored_opacity_in_range:
  assumes "wf s" and "history_ok s" and "opacities_in_range s"
    and "list_all gesture_in_range gs"
  shows "opacities_in_range (fold (perform rnd fp pf st) gs s)
       \<and> (case Option.bind (getItemPosition i (fold (perform rnd fp pf st) gs s)) opacity of
            None \<Rightarrow> True
          | Some v \<Rightarrow> 0 \<le> v \<and> v < 1)"
proof -
  let ?t = "fold (perform rnd fp pf st) gs s"
  have "state_ok s"
    using assms(1-3) by (simp add: state_ok_def)
  then have ok: "state_ok ?t"
    using assms(4) by (rule ok_fold)
  have "in_range r" if "getItemPosition i ?t = Some r" for r
    using ok that by (rule ok_get)
  then have "case Option.bind (getItemPosition i ?t) opacity of
               None \<Rightarrow> True | Some v \<Rightarrow> 0 \<le> v \<and> v < 1"
    by (cases "getItemPosition i ?t") (simp_all add: in_range_def)
  then show ?thesis
    using ok by (simp add: state_ok_def)
qed

theorem stored_opacity_in_range_witness:
  "wf fresh_item \<and> history_ok fresh_item \<and> opacities_in_range fresh_item
   \<and> list_all gesture_in_range two_ticks
   \<and> Option.bind (getItemPosition ''a''
        (fold (perform no_suffix no_parse parse_one string_one) two_ticks fresh_item)) opacity
       = Some (9 / 10)
   \<and> opacities_in_range (fold (perform no_suffix no_parse parse_one string_one) two_ticks fresh_item)
   \<and> (case Option.bind (getItemPosition ''a''
        (fold (perform no_suffix no_parse parse_one string_one) two_ticks fresh_item)) opacity of
        None \<Rightarrow> True
      | Some v \<Rightarrow> 0 \<le> v \<and> v < 1)"
proof -
  let ?f = "handleWheelTransform parse_one string_one tick_down"
  have h: "wf fresh_item" "history_ok fresh_item"
    by (simp_all add: fresh_item_def wf_initial)
  have r: "opacities_in_range fresh_item"
    by (simp add: opacities_in_range_def fresh_item_def initial_state_def store_def snapshots_def
        JSON_stringify_def)
  have g: "list_all gesture_in_range two_ticks"
    by (simp add: two_ticks_def gesture_in_range_def)
  have f: "fold (perform no_suffix no_parse parse_one string_one) two_ticks fresh_item
             = (?f ^^ 2) fresh_item"
    by (simp add: two_ticks_def eval_nat_numeral)
  from ticks_down [of 2 parse_one string_one]
  obtain r' where "getItemPosition ''a'' ((?f ^^ 2) fresh_item) = Some r'" "opacity r' = Some (9 / 10)"
    by auto
  then have v: "Option.bind (getItemPosition ''a''
        (fold (perform no_suffix no_parse parse_one string_one) two_ticks fresh_item)) opacity
       = Some (9 / 10)"
    by (simp add: f)
  from stored_opacity_in_range [OF h r g, of no_suffix no_parse parse_one string_one "''a''"] h r g v
  show ?thesis
    by simp
qed

text \<open>
  Twenty-one wheel ticks down on the new item: the stored opacity is exactly 0. (The
  twentieth tick reaches 0 by subtraction, the twenty-first by the clamp alone.)
\<close>

theorem opacity_reaches_zero:
  "Option.bind (getItemPosition ''a''
      ((handleWheelTransform parse_one string_one tick_down ^^ 21) fresh_item)) opacity = Some 0"
proof -
  let ?f = "handleWheelTransform parse_one string_one tick_down"
  have e: "getElementById ''a'' ((?f ^^ 20) fresh_item) = Some (element_a\<lparr>style_opacity := Some 0\<rparr>)"
    using ticks_down [of 20 parse_one string_one] by simp
  have h: "wheel_target tick_down = Some ''a''" "''a'' \<noteq> []" "shiftKey tick_down"
    by (simp_all add: tick_down_def)
  have v: "next_opacity tick_down (style_opacity (element_a\<lparr>style_opacity := Some 0\<rparr>)) = 0"
    by (simp add: next_opacity_def tick_down_def)
  have n: "(?f ^^ 21) fresh_item = ?f ((?f ^^ 20) fresh_item)"
    by (simp add: eval_nat_numeral)
  from wheel_opacity_tick(1) [OF h(1,2) e h(3), of parse_one string_one]
  obtain r where "getItemPosition ''a'' (?f ((?f ^^ 20) fresh_item)) = Some r" "opacity r = Some 0"
    unfolding v by auto
  then show ?thesis
    unfolding n by simp
qed

end
